(* ===== verification/Prelude.thy ===== *)
theory Prelude
  imports Main "HOL-Library.Word" "HOL-Library.Char_ord" "HOL-Library.List_Lexorder"
    "HOL-Library.Code_Target_Numeral"
begin

text \<open>
  Shared vocabulary of the development: the parts of the Rust standard library that the
  sources under \<^verbatim>\<open>src/src/\<close> call.
  Byte strings are lists of \<^typ>\<open>char\<close> (a \<^typ>\<open>char\<close> is one byte); a Rust \<open>String\<close> is its UTF-8
  bytes, so that \<open>length\<close> is the byte length \<open>String::len\<close>.
  A \<open>Duration\<close> is its number of nanoseconds, bounded by \<open>duration_max\<close>; an \<open>Instant\<close> is a
  number of nanoseconds on the monotonic clock; a \<open>SystemTime\<close> is a signed number of
  nanoseconds from the Unix epoch.
  A panic of the standard library is a value of type \<open>fault\<close>.
\<close>

named_theorems store_simps \<open>projections of the store's operations\<close>
named_theorems invs \<open>preservation of the components' invariants\<close>

section \<open>Machine integers\<close>

definition u64_max :: nat where
  "u64_max = 18446744073709551615"

definition u32_max :: nat where
  "u32_max = 4294967295"

definition i64_max :: nat where
  "i64_max = 9223372036854775807"

lemma u64_max_pow: "u64_max = 2 ^ 64 - 1"
  by (simp add: u64_max_def)

lemma u32_max_pow: "u32_max = 2 ^ 32 - 1"
  by (simp add: u32_max_def)

text \<open>\<open>u64::saturating_mul\<close>, \<open>u32::try_from(n).unwrap_or(u32::MAX)\<close> and
  \<open>i64::try_from(n).unwrap_or(i64::MAX)\<close>.\<close>

definition saturating_mul_u64 :: "nat \<Rightarrow> nat \<Rightarrow> nat" where
  "saturating_mul_u64 a b = min (a * b) u64_max"

definition saturate_u32 :: "nat \<Rightarrow> nat" where
  "saturate_u32 n = (if n \<le> u32_max then n else u32_max)"

definition saturate_i64 :: "nat \<Rightarrow> nat" where
  "saturate_i64 n = (if n \<le> i64_max then n else i64_max)"

section \<open>Durations and instants\<close>

type_synonym duration = nat
type_synonym instant = nat
type_synonym system_time = int

datatype fault =
    DurationOverflow \<comment> \<open>\<open>Duration + Duration\<close>: overflow when adding durations\<close>
  | InstantOverflow \<comment> \<open>\<open>Instant + Duration\<close>: overflow when adding duration to instant\<close>
  | SliceOutOfRange \<comment> \<open>\<open>s[..n]\<close>: byte index out of bounds\<close>

text \<open>\<open>std::io::Error\<close>: an error of the operating system by its number, or one made by the program.\<close>

datatype io_error = OsError nat | InvalidInput string

definition nanos_per_sec :: nat where
  "nanos_per_sec = 1000000000"

definition duration_max :: duration where
  "duration_max = u64_max * nanos_per_sec + 999999999"

definition from_secs :: "nat \<Rightarrow> duration" where
  "from_secs n = n * nanos_per_sec"

definition as_secs :: "duration \<Rightarrow> nat" where
  "as_secs d = d div nanos_per_sec"

text \<open>\<open>Duration::checked_sub\<close>, \<open>Duration::saturating_add\<close>, \<open>Duration::saturating_mul\<close> and the
  panicking \<open>Duration + Duration\<close>.\<close>

definition checked_sub :: "duration \<Rightarrow> duration \<Rightarrow> duration option" where
  "checked_sub a b = (if b \<le> a then Some (a - b) else None)"

definition saturating_add_dur :: "duration \<Rightarrow> duration \<Rightarrow> duration" where
  "saturating_add_dur a b = min (a + b) duration_max"

definition saturating_mul_dur :: "duration \<Rightarrow> nat \<Rightarrow> duration" where
  "saturating_mul_dur a k = min (a * k) duration_max"

definition add_dur :: "duration \<Rightarrow> duration \<Rightarrow> fault + duration" where
  "add_dur a b = (if a + b \<le> duration_max then Inr (a + b) else Inl DurationOverflow)"

text \<open>\<open>Instant::elapsed\<close> at the reading \<open>now\<close> saturates at zero.\<close>

definition elapsed :: "instant \<Rightarrow> instant \<Rightarrow> duration" where
  "elapsed since now = now - since"

text \<open>\<open>SystemTime::duration_since\<close>: \<open>None\<close> stands for its error, a later reference time.\<close>

definition duration_since :: "system_time \<Rightarrow> system_time \<Rightarrow> duration option" where
  "duration_since later earlier =
     (if earlier \<le> later then Some (nat (later - earlier)) else None)"

lemma as_secs_from_secs [simp]: "as_secs (from_secs n) = n"
  by (simp add: as_secs_def from_secs_def nanos_per_sec_def)

lemma from_secs_mono [simp]: "from_secs m \<le> from_secs n \<longleftrightarrow> m \<le> n"
  by (simp add: from_secs_def nanos_per_sec_def)

lemma from_secs_eq_0 [simp]: "from_secs n = 0 \<longleftrightarrow> n = 0"
  by (simp add: from_secs_def nanos_per_sec_def)

lemma from_secs_le_max: "n \<le> u64_max \<Longrightarrow> from_secs n \<le> duration_max"
  by (simp add: from_secs_def duration_max_def u64_max_def nanos_per_sec_def)

lemma as_secs_le_max: "d \<le> duration_max \<Longrightarrow> as_secs d \<le> u64_max"
  by (simp add: as_secs_def duration_max_def u64_max_def nanos_per_sec_def)

lemma checked_sub_Some [simp]: "checked_sub a b = Some d \<longleftrightarrow> b \<le> a \<and> d = a - b"
  by (auto simp: checked_sub_def)

lemma checked_sub_None [simp]: "checked_sub a b = None \<longleftrightarrow> a < b"
  by (auto simp: checked_sub_def)

lemma add_dur_Inr [simp]: "add_dur a b = Inr d \<longleftrightarrow> a + b \<le> duration_max \<and> d = a + b"
  by (auto simp: add_dur_def)

lemma add_dur_Inl [simp]: "add_dur a b = Inl f \<longleftrightarrow> duration_max < a + b \<and> f = DurationOverflow"
  by (auto simp: add_dur_def)

end
