(* ===== verification/Text_Ops.thy ===== *)
theory Text_Ops
  imports Prelude
begin

text \<open>
  The string operations of the Rust standard library that the sources use, on UTF-8 byte
  strings: ASCII case, decimal numbers, \<open>split\<close>, \<open>split_once\<close>, \<open>trim\<close>,
  \<open>String::from_utf8_lossy\<close> and \<open>join\<close>, with the facts the components rely on.
\<close>

section \<open>ASCII\<close>

abbreviation code :: "char \<Rightarrow> nat" where
  "code c \<equiv> of_char c"

definition is_ascii_digit :: "char \<Rightarrow> bool" where
  "is_ascii_digit c \<longleftrightarrow> 48 \<le> code c \<and> code c \<le> 57"

definition ascii_lower :: "char \<Rightarrow> char" where
  "ascii_lower c = (if 65 \<le> code c \<and> code c \<le> 90 then char_of (code c + 32) else c)"

definition to_ascii_lowercase :: "string \<Rightarrow> string" where
  "to_ascii_lowercase s = map ascii_lower s"

lemma code_ascii_lower:
  "code (ascii_lower c) = (if 65 \<le> code c \<and> code c \<le> 90 then code c + 32 else code c)"
  by (simp add: ascii_lower_def)

lemma ascii_lower_idem [simp]: "ascii_lower (ascii_lower c) = ascii_lower c"
  using code_ascii_lower [of c] by (auto simp: ascii_lower_def [of "ascii_lower c"])

lemma to_ascii_lowercase_idem [simp]:
  "to_ascii_lowercase (to_ascii_lowercase s) = to_ascii_lowercase s"
  by (simp add: to_ascii_lowercase_def)

lemma to_ascii_lowercase_simps [simp]:
  "to_ascii_lowercase [] = []"
  "to_ascii_lowercase (c # s) = ascii_lower c # to_ascii_lowercase s"
  "to_ascii_lowercase (s @ t) = to_ascii_lowercase s @ to_ascii_lowercase t"
  "length (to_ascii_lowercase s) = length s"
  "to_ascii_lowercase s = [] \<longleftrightarrow> s = []"
  by (simp_all add: to_ascii_lowercase_def)

section \<open>Decimal numbers\<close>

definition digits_value :: "string \<Rightarrow> nat" where
  "digits_value ds = foldl (\<lambda>n c. 10 * n + (code c - 48)) 0 ds"

text \<open>\<open>str::parse::<u64>\<close>: an optional plus sign, then at least one digit, at most \<open>u64::MAX\<close>.\<close>

definition strip_plus :: "string \<Rightarrow> string" where
  "strip_plus s = (case s of [] \<Rightarrow> [] | c # cs \<Rightarrow> if c = CHR ''+'' then cs else c # cs)"

definition parse_u64 :: "string \<Rightarrow> nat option" where
  "parse_u64 s =
     (let ds = strip_plus s
      in if ds = [] \<or> \<not> list_all is_ascii_digit ds \<or> u64_max < digits_value ds then None
         else Some (digits_value ds))"

text \<open>\<open>u64::to_string\<close>.\<close>

fun to_decimal :: "nat \<Rightarrow> string" where
  "to_decimal n =
     (if n < 10 then [char_of (48 + n)] else to_decimal (n div 10) @ [char_of (48 + n mod 10)])"

declare to_decimal.simps [simp del]

lemma digits_value_append1:
  "digits_value (ds @ [c]) = 10 * digits_value ds + (code c - 48)"
  by (simp add: digits_value_def)

lemma parse_u64_bound: "parse_u64 s = Some n \<Longrightarrow> n \<le> u64_max"
  by (auto simp: parse_u64_def Let_def split: if_splits)

lemma digit_char:
  assumes "n < 10"
  shows "code (char_of (48 + n)) = 48 + n" and "is_ascii_digit (char_of (48 + n))"
  using assms by (simp_all add: is_ascii_digit_def)

lemma to_decimal_digits:
  "to_decimal n \<noteq> [] \<and> list_all is_ascii_digit (to_decimal n) \<and> digits_value (to_decimal n) = n"
proof (induction n rule: to_decimal.induct)
  case (1 n)
  show ?case
  proof (cases "n < 10")
    case True
    then show ?thesis
      using digit_char [of n] by (simp add: to_decimal.simps [of n] digits_value_def)
  next
    case False
    have m: "n mod 10 < 10" by simp
    show ?thesis
      using False "1.IH" [OF False] digit_char [OF m]
      by (simp add: to_decimal.simps [of n] digits_value_append1)
  qed
qed

lemma strip_plus_digits: "list_all is_ascii_digit ds \<Longrightarrow> strip_plus ds = ds"
  by (cases ds) (auto simp: strip_plus_def is_ascii_digit_def)

lemma parse_u64_digits:
  assumes "ds \<noteq> []" and "list_all is_ascii_digit ds"
  shows "parse_u64 ds = (if digits_value ds \<le> u64_max then Some (digits_value ds) else None)"
  using assms by (auto simp: parse_u64_def strip_plus_digits)

lemma parse_u64_to_decimal: "n \<le> u64_max \<Longrightarrow> parse_u64 (to_decimal n) = Some n"
  using to_decimal_digits [of n] by (simp add: parse_u64_digits)

section \<open>Splitting and joining\<close>

fun split_on :: "char \<Rightarrow> string \<Rightarrow> string list" where
  "split_on c [] = [[]]"
| "split_on c (x # xs) =
     (if x = c then [] # split_on c xs
      else (case split_on c xs of [] \<Rightarrow> [[x]] | p # ps \<Rightarrow> (x # p) # ps))"

definition split_once :: "char \<Rightarrow> string \<Rightarrow> (string \<times> string) option" where
  "split_once c s =
     (if c \<in> set s
      then Some (takeWhile (\<lambda>x. x \<noteq> c) s, tl (dropWhile (\<lambda>x. x \<noteq> c) s)) else None)"

fun join :: "string \<Rightarrow> string list \<Rightarrow> string" where
  "join sep [] = []"
| "join sep [p] = p"
| "join sep (p # q # ps) = p @ sep @ join sep (q # ps)"

definition strip_prefix :: "char \<Rightarrow> string \<Rightarrow> string option" where
  "strip_prefix c s = (case s of [] \<Rightarrow> None | x # xs \<Rightarrow> if x = c then Some xs else None)"

definition strip_suffix :: "char \<Rightarrow> string \<Rightarrow> string option" where
  "strip_suffix c s = (if s \<noteq> [] \<and> last s = c then Some (butlast s) else None)"

text \<open>\<open>s[..n]\<close> panics when \<open>n\<close> is past the end, or inside a multi-byte character.\<close>

definition char_boundary :: "string \<Rightarrow> nat \<Rightarrow> bool" where
  "char_boundary s n \<longleftrightarrow> n = length s \<or> n < length s \<and> \<not> (128 \<le> code (s ! n) \<and> code (s ! n) < 192)"

definition slice_to :: "nat \<Rightarrow> string \<Rightarrow> fault + string" where
  "slice_to n s = (if char_boundary s n then Inr (take n s) else Inl SliceOutOfRange)"

lemma split_on_nonempty [simp]: "split_on c s \<noteq> []"
  by (cases s) (auto split: list.splits)

lemma join_Cons: "ps \<noteq> [] \<Longrightarrow> join sep (p # ps) = p @ sep @ join sep ps"
  by (cases ps) simp_all

lemma join_split_on: "join [c] (split_on c s) = s"
proof (induction s)
  case Nil
  show ?case by simp
next
  case (Cons x s)
  obtain p ps where ps: "split_on c s = p # ps"
    using split_on_nonempty [of c s] by (cases "split_on c s") auto
  from Cons ps show ?case by (cases ps) (auto simp: join_Cons)
qed

lemma split_on_pieces: "p \<in> set (split_on c s) \<Longrightarrow> c \<notin> set p"
  by (induction s arbitrary: p) (auto split: if_splits list.splits)

lemma set_split_on: "p \<in> set (split_on c s) \<Longrightarrow> set p \<subseteq> set s"
  by (induction s arbitrary: p) (fastforce split: if_splits list.splits)+

lemma split_on_no: "c \<notin> set s \<Longrightarrow> split_on c s = [s]"
  by (induction s) auto

lemma split_once_Some:
  "split_once c s = Some (a, b) \<Longrightarrow> s = a @ c # b \<and> c \<notin> set a"
proof -
  assume "split_once c s = Some (a, b)"
  then have c: "c \<in> set s" and a: "a = takeWhile (\<lambda>x. x \<noteq> c) s"
    and b: "b = tl (dropWhile (\<lambda>x. x \<noteq> c) s)"
    by (auto simp: split_once_def split: if_splits)
  from c have "\<exists>t. dropWhile (\<lambda>x. x \<noteq> c) s = c # t"
    by (induction s) auto
  then obtain t where t: "dropWhile (\<lambda>x. x \<noteq> c) s = c # t" ..
  have "s = takeWhile (\<lambda>x. x \<noteq> c) s @ dropWhile (\<lambda>x. x \<noteq> c) s" by simp
  then have "s = a @ c # b" using t a b by simp
  moreover have "c \<notin> set a" using a by (auto dest: set_takeWhileD)
  ultimately show ?thesis ..
qed

lemma split_once_None: "split_once c s = None \<longleftrightarrow> c \<notin> set s"
  by (simp add: split_once_def)

section \<open>White space\<close>

text \<open>
  \<open>str::trim\<close> removes the characters with the Unicode property White\_Space at both ends:
  U+0009 to U+000D, U+0020, U+0085, U+00A0, U+1680, U+2000 to U+200A, U+2028, U+2029, U+202F,
  U+205F and U+3000. \<open>ws_len\<close> is the length in bytes of such a character at the head of a
  UTF-8 string, and 0 when there is none.
\<close>

definition ws1 :: "char \<Rightarrow> bool" where
  "ws1 a \<longleftrightarrow> (9 \<le> code a \<and> code a \<le> 13) \<or> code a = 32"

definition ws2 :: "char \<Rightarrow> char \<Rightarrow> bool" where
  "ws2 a b \<longleftrightarrow> code a = 0xC2 \<and> (code b = 0x85 \<or> code b = 0xA0)"

definition ws3 :: "char \<Rightarrow> char \<Rightarrow> char \<Rightarrow> bool" where
  "ws3 a b c \<longleftrightarrow>
     (code a = 0xE1 \<and> code b = 0x9A \<and> code c = 0x80) \<or>
     (code a = 0xE2 \<and> code b = 0x80 \<and>
       ((0x80 \<le> code c \<and> code c \<le> 0x8A) \<or> code c = 0xA8 \<or> code c = 0xA9 \<or> code c = 0xAF)) \<or>
     (code a = 0xE2 \<and> code b = 0x81 \<and> code c = 0x9F) \<or>
     (code a = 0xE3 \<and> code b = 0x80 \<and> code c = 0x80)"

fun ws_len :: "string \<Rightarrow> nat" where
  "ws_len [] = 0"
| "ws_len [a] = (if ws1 a then 1 else 0)"
| "ws_len [a, b] = (if ws1 a then 1 else if ws2 a b then 2 else 0)"
| "ws_len (a # b # c # s) =
     (if ws1 a then 1 else if ws2 a b then 2 else if ws3 a b c then 3 else 0)"

text \<open>The same at the end of a string: the last one, two or three bytes.\<close>

definition ws_len_end :: "string \<Rightarrow> nat" where
  "ws_len_end s =
     (case rev s of
        [] \<Rightarrow> 0
      | [a] \<Rightarrow> if ws1 a then 1 else 0
      | [b, a] \<Rightarrow> if ws1 b then 1 else if ws2 a b then 2 else 0
      | c # b # a # _ \<Rightarrow> if ws1 c then 1 else if ws2 b c then 2 else if ws3 a b c then 3 else 0)"

lemma ws_len_le: "ws_len s \<le> length s"
  by (cases s rule: ws_len.cases) auto

lemma ws_len_end_le: "ws_len_end s \<le> length s"
proof -
  have "ws_len_end s \<le> length (rev s)"
    by (auto simp: ws_len_end_def split: list.splits)
  then show ?thesis by simp
qed

function trim_start :: "string \<Rightarrow> string" where
  "trim_start s = (if ws_len s = 0 then s else trim_start (drop (ws_len s) s))"
  by pat_completeness auto
termination
proof (relation "measure length")
  fix s :: string
  assume "ws_len s \<noteq> 0"
  then show "(drop (ws_len s) s, s) \<in> measure length"
    using ws_len_le [of s] by simp
qed simp

function trim_end :: "string \<Rightarrow> string" where
  "trim_end s = (if ws_len_end s = 0 then s else trim_end (take (length s - ws_len_end s) s))"
  by pat_completeness auto
termination
proof (relation "measure length")
  fix s :: string
  assume "ws_len_end s \<noteq> 0"
  then show "(take (length s - ws_len_end s) s, s) \<in> measure length"
    using ws_len_end_le [of s] by simp
qed simp

declare trim_start.simps [simp del] trim_end.simps [simp del]

definition trim :: "string \<Rightarrow> string" where
  "trim s = trim_end (trim_start s)"

lemma trim_start_done: "ws_len (trim_start s) = 0"
  by (induction s rule: trim_start.induct) (metis trim_start.simps)

lemma trim_end_done: "ws_len_end (trim_end s) = 0"
  by (induction s rule: trim_end.induct) (metis trim_end.simps)

lemma trim_start_suffix: "\<exists>pre. s = pre @ trim_start s"
proof (induction s rule: trim_start.induct)
  case (1 s)
  show ?case
  proof (cases "ws_len s = 0")
    case True
    then show ?thesis by (simp add: trim_start.simps [of s])
  next
    case False
    then obtain pre where "drop (ws_len s) s = pre @ trim_start (drop (ws_len s) s)"
      using "1.IH" by blast
    then have "s = (take (ws_len s) s @ pre) @ trim_start s"
      using False by (simp add: trim_start.simps [of s])
    then show ?thesis ..
  qed
qed

lemma trim_end_prefix: "\<exists>post. s = trim_end s @ post"
proof (induction s rule: trim_end.induct)
  case (1 s)
  let ?t = "take (length s - ws_len_end s) s"
  show ?case
  proof (cases "ws_len_end s = 0")
    case True
    then show ?thesis by (simp add: trim_end.simps [of s])
  next
    case False
    then obtain post where "?t = trim_end ?t @ post"
      using "1.IH" by blast
    then have "s = trim_end s @ (post @ drop (length s - ws_len_end s) s)"
      using False by (simp add: trim_end.simps [of s]) (metis append_assoc append_take_drop_id)
    then show ?thesis ..
  qed
qed

lemma set_trim: "set (trim s) \<subseteq> set s"
proof -
  obtain pre where "s = pre @ trim_start s" using trim_start_suffix by blast
  then have "set (trim_start s) \<subseteq> set s" by (metis Un_upper2 set_append)
  moreover obtain post where "trim_start s = trim_end (trim_start s) @ post"
    using trim_end_prefix by blast
  then have "set (trim s) \<subseteq> set (trim_start s)"
    unfolding trim_def by (metis Un_upper1 set_append)
  ultimately show ?thesis by simp
qed

lemma trim_id: "ws_len s = 0 \<Longrightarrow> ws_len_end s = 0 \<Longrightarrow> trim s = s"
  by (simp add: trim_def trim_start.simps [of s] trim_end.simps [of s])

lemma trim_Nil [simp]: "trim [] = []"
  by (rule trim_id) (simp_all add: ws_len_end_def)

section \<open>Lossy UTF-8 decoding\<close>

text \<open>
  \<open>String::from_utf8_lossy\<close> copies valid sequences and replaces each maximal invalid prefix
  by U+FFFD. \<open>utf8_head\<close> gives the number of bytes of the sequence at the head of a
  non-empty string and whether it is valid.
\<close>

definition cont :: "char \<Rightarrow> bool" where
  "cont c \<longleftrightarrow> 0x80 \<le> code c \<and> code c \<le> 0xBF"

definition lead2 :: "char \<Rightarrow> bool" where
  "lead2 a \<longleftrightarrow> 0xC2 \<le> code a \<and> code a \<le> 0xDF"

definition lead3 :: "char \<Rightarrow> bool" where
  "lead3 a \<longleftrightarrow> 0xE0 \<le> code a \<and> code a \<le> 0xEF"

definition lead4 :: "char \<Rightarrow> bool" where
  "lead4 a \<longleftrightarrow> 0xF0 \<le> code a \<and> code a \<le> 0xF4"

definition second3 :: "char \<Rightarrow> char \<Rightarrow> bool" where
  "second3 a b \<longleftrightarrow> cont b \<and> (code a = 0xE0 \<longrightarrow> 0xA0 \<le> code b) \<and> (code a = 0xED \<longrightarrow> code b \<le> 0x9F)"

definition second4 :: "char \<Rightarrow> char \<Rightarrow> bool" where
  "second4 a b \<longleftrightarrow> cont b \<and> (code a = 0xF0 \<longrightarrow> 0x90 \<le> code b) \<and> (code a = 0xF4 \<longrightarrow> code b \<le> 0x8F)"

definition at :: "(char \<Rightarrow> bool) \<Rightarrow> string \<Rightarrow> nat \<Rightarrow> bool" where
  "at P s i \<longleftrightarrow> i < length s \<and> P (s ! i)"

definition utf8_head :: "string \<Rightarrow> nat \<times> bool" where
  "utf8_head s =
     (let a = s ! 0 in
      if code a < 0x80 then (1, True)
      else if lead2 a then (if at cont s 1 then (2, True) else (1, False))
      else if lead3 a then
        (if \<not> at (second3 a) s 1 then (1, False)
         else if \<not> at cont s 2 then (2, False) else (3, True))
      else if lead4 a then
        (if \<not> at (second4 a) s 1 then (1, False)
         else if \<not> at cont s 2 then (2, False)
         else if \<not> at cont s 3 then (3, False) else (4, True))
      else (1, False))"

definition replacement_character :: string where
  "replacement_character = [char_of (0xEF :: nat), char_of (0xBF :: nat), char_of (0xBD :: nat)]"

lemma utf8_head_pos: "0 < fst (utf8_head s)"
  by (auto simp: utf8_head_def Let_def)

function from_utf8_lossy :: "string \<Rightarrow> string" where
  "from_utf8_lossy s =
     (if s = [] then []
      else (case utf8_head s of (n, valid) \<Rightarrow>
              (if valid then take n s else replacement_character) @ from_utf8_lossy (drop n s)))"
  by pat_completeness auto
termination
proof (relation "measure length")
  fix s :: string and n valid
  assume "s \<noteq> []" and "(n, valid) = utf8_head s"
  then show "(drop n s, s) \<in> measure length"
    using utf8_head_pos [of s] by (cases "utf8_head s") simp
qed simp

declare from_utf8_lossy.simps [simp del]

lemma from_utf8_lossy_Nil [simp]: "from_utf8_lossy [] = []"
  by (simp add: from_utf8_lossy.simps)

lemma from_utf8_lossy_ascii: "list_all (\<lambda>c. code c < 128) s \<Longrightarrow> from_utf8_lossy s = s"
proof (induction s)
  case Nil
  show ?case by simp
next
  case (Cons a s)
  then have "utf8_head (a # s) = (1, True)" by (simp add: utf8_head_def)
  with Cons show ?case by (simp add: from_utf8_lossy.simps [of "a # s"])
qed

lemma at_take: "i < n \<Longrightarrow> n \<le> length s \<Longrightarrow> at P (take n s @ t) i = at P s i"
  by (simp add: at_def nth_append)

lemma utf8_head_valid:
  "utf8_head s = (n, True) \<longleftrightarrow>
     n = 1 \<and> code (s ! 0) < 0x80 \<or>
     n = 2 \<and> lead2 (s ! 0) \<and> at cont s 1 \<or>
     n = 3 \<and> lead3 (s ! 0) \<and> at (second3 (s ! 0)) s 1 \<and> at cont s 2 \<or>
     n = 4 \<and> lead4 (s ! 0) \<and> at (second4 (s ! 0)) s 1 \<and> at cont s 2 \<and> at cont s 3"
  by (simp add: utf8_head_def Let_def lead2_def lead3_def lead4_def split: if_split) linarith

lemma utf8_head_le: "s \<noteq> [] \<Longrightarrow> utf8_head s = (n, True) \<Longrightarrow> n \<le> length s"
  unfolding utf8_head_valid by (auto simp: at_def Suc_le_eq)

lemma utf8_head_prefix:
  assumes "s \<noteq> []" and "utf8_head s = (n, True)"
  shows "utf8_head (take n s @ t) = (n, True)"
proof -
  have le: "n \<le> length s" using assms by (rule utf8_head_le)
  have pos: "0 < n" using utf8_head_pos [of s] assms by simp
  have hd: "(take n s @ t) ! 0 = s ! 0" using pos le by (simp add: nth_append)
  show ?thesis
    using assms(2) unfolding utf8_head_valid hd
    using le by (auto simp: at_take)
qed

lemma utf8_head_replacement: "utf8_head (replacement_character @ t) = (3, True)"
  by (simp add: utf8_head_def replacement_character_def Let_def at_def lead2_def lead3_def
      second3_def cont_def)

text \<open>The result is valid UTF-8: decoding it again changes nothing.\<close>

lemma from_utf8_lossy_idem: "from_utf8_lossy (from_utf8_lossy s) = from_utf8_lossy s"
proof (induction s rule: from_utf8_lossy.induct)
  case (1 s)
  show ?case
  proof (cases "s = []")
    case True
    then show ?thesis by simp
  next
    case False
    obtain n valid where h: "utf8_head s = (n, valid)" by (cases "utf8_head s")
    let ?r = "from_utf8_lossy (drop n s)"
    have IH: "from_utf8_lossy ?r = ?r" using "1.IH" [OF False, of n valid] h by simp
    show ?thesis
    proof (cases valid)
      case True
      with h False have n: "n \<le> length s" and hd: "utf8_head (take n s @ ?r) = (n, True)"
        using utf8_head_prefix utf8_head_le by auto
      have "take n s @ ?r \<noteq> []" using False utf8_head_pos [of s] h by auto
      then have "from_utf8_lossy (take n s @ ?r) = take n s @ ?r"
        using hd n IH by (simp add: from_utf8_lossy.simps [of "take n s @ ?r"])
      then show ?thesis using False True h by (simp add: from_utf8_lossy.simps [of s])
    next
      case invalid: False
      have "from_utf8_lossy (replacement_character @ ?r) = replacement_character @ ?r"
        using utf8_head_replacement [of ?r] IH
        by (subst from_utf8_lossy.simps) (simp add: replacement_character_def)
      then show ?thesis using False invalid h by (simp add: from_utf8_lossy.simps [of s])
    qed
  qed
qed

end
