(* ===== verification/Http.thy ===== *)
theory Http
  imports Text_Ops
begin

text \<open>
  HTTP messages as the sources see them. A header map is the list of its field lines, a
  name and a value each, in iteration order; names are lower case, as \<open>HeaderName\<close> keeps
  them, and a value is its bytes. The operations below are the ones the sources call on
  \<open>HeaderMap\<close> and on the \<open>Fields\<close> vector of \<^verbatim>\<open>src/src/cache.rs\<close>.
  Functions of the \<open>http\<close> and \<open>httpdate\<close> crates are not part of the repository: they are
  the fields of the record \<open>http_lib\<close>, an argument of every definition that calls them, and
  the predicates after it name the documented behaviour that some theorems rely on.
\<close>

section \<open>Header maps\<close>

type_synonym header_name = string
type_synonym header_value = string
type_synonym fields = "(header_name \<times> header_value) list"
type_synonym status_code = nat
type_synonym http_method = string

text \<open>An actix \<open>HttpResponse\<close>; the type of its body depends on the handler.\<close>

record 'b http_response =
  rs_status :: status_code
  rs_headers :: fields
  rs_body :: 'b

definition get_all :: "fields \<Rightarrow> header_name \<Rightarrow> header_value list" where
  "get_all h n = map snd (filter (\<lambda>(m, v). m = n) h)"

definition get :: "fields \<Rightarrow> header_name \<Rightarrow> header_value option" where
  "get h n = (case get_all h n of [] \<Rightarrow> None | v # _ \<Rightarrow> Some v)"

definition contains_key :: "fields \<Rightarrow> header_name \<Rightarrow> bool" where
  "contains_key h n \<longleftrightarrow> list_ex (\<lambda>(m, v). m = n) h"

definition append_header :: "fields \<Rightarrow> header_name \<Rightarrow> header_value \<Rightarrow> fields" where
  "append_header h n v = h @ [(n, v)]"

definition remove_header :: "fields \<Rightarrow> header_name \<Rightarrow> fields" where
  "remove_header h n = filter (\<lambda>(m, v). m \<noteq> n) h"

definition insert_header :: "fields \<Rightarrow> header_name \<Rightarrow> header_value \<Rightarrow> fields" where
  "insert_header h n v = append_header (remove_header h n) n v"

lemma get_all_simps [simp]:
  "get_all [] n = []"
  "get_all ((m, v) # h) n = (if m = n then v # get_all h n else get_all h n)"
  "get_all (h @ h') n = get_all h n @ get_all h' n"
  by (simp_all add: get_all_def)

lemma get_all_append_header [simp]:
  "get_all (append_header h m v) n = get_all h n @ (if m = n then [v] else [])"
  by (simp add: append_header_def)

lemma get_all_filter:
  "get_all (filter (\<lambda>(m, v). P m) h) n = (if P n then get_all h n else [])"
  by (induction h) auto

lemma get_all_remove_header [simp]:
  "get_all (remove_header h m) n = (if m = n then [] else get_all h n)"
  by (induction h) (auto simp: remove_header_def)

lemma get_all_insert_header [simp]:
  "get_all (insert_header h m v) n = (if m = n then [v] else get_all h n)"
  by (simp add: insert_header_def)

lemma contains_key_get_all: "contains_key h n \<longleftrightarrow> get_all h n \<noteq> []"
  by (induction h) (auto simp: contains_key_def split: if_splits)

lemma get_None: "get h n = None \<longleftrightarrow> get_all h n = []"
  by (simp add: get_def split: list.splits)

lemma contains_key_get: "contains_key h n \<longleftrightarrow> get h n \<noteq> None"
  by (simp add: contains_key_get_all get_None)

lemma get_all_eqI_get: "get_all h n = get_all h' n \<Longrightarrow> get h n = get h' n"
  by (simp add: get_def)

lemma get_all_empty_iff: "get_all h n = [] \<longleftrightarrow> n \<notin> fst ` set h"
  by (induction h) (auto split: if_splits)

section \<open>The http and httpdate crates\<close>

record http_lib =
  to_str :: "header_value \<Rightarrow> string option" \<comment> \<open>\<open>HeaderValue::to_str\<close>\<close>
  header_name_from_bytes :: "string \<Rightarrow> header_name option" \<comment> \<open>\<open>HeaderName::from_bytes\<close>\<close>
  parse_http_date :: "string \<Rightarrow> system_time option" \<comment> \<open>\<open>httpdate::parse_http_date\<close>\<close>
  is_safe :: "http_method \<Rightarrow> bool" \<comment> \<open>\<open>Method::is_safe\<close>\<close>
  is_success :: "status_code \<Rightarrow> bool" \<comment> \<open>\<open>StatusCode::is_success\<close>\<close>
  is_redirection :: "status_code \<Rightarrow> bool" \<comment> \<open>\<open>StatusCode::is_redirection\<close>\<close>
  canonical_reason :: "status_code \<Rightarrow> string option" \<comment> \<open>\<open>StatusCode::canonical_reason\<close>\<close>

text \<open>\<open>HeaderValue::to_str\<close> gives the bytes themselves when they are visible ASCII, spaces or
  tabs, and an error otherwise.\<close>

definition visible_ascii :: "char \<Rightarrow> bool" where
  "visible_ascii c \<longleftrightarrow> (32 \<le> code c \<and> code c < 127) \<or> code c = 9"

definition to_str_documented :: "http_lib \<Rightarrow> bool" where
  "to_str_documented L \<longleftrightarrow>
     (\<forall>v. to_str L v = (if list_all visible_ascii v then Some v else None))"

text \<open>\<open>HeaderName::from_bytes\<close> lower-cases the name it accepts.\<close>

definition header_name_documented :: "http_lib \<Rightarrow> bool" where
  "header_name_documented L \<longleftrightarrow>
     (\<forall>b n. header_name_from_bytes L b = Some n \<longrightarrow> n = to_ascii_lowercase b)"

text \<open>The safe methods are \<open>GET\<close>, \<open>HEAD\<close>, \<open>OPTIONS\<close> and \<open>TRACE\<close>; success and redirection are
  the 2xx and 3xx classes.\<close>

definition is_safe_documented :: "http_lib \<Rightarrow> bool" where
  "is_safe_documented L \<longleftrightarrow>
     (\<forall>m. is_safe L m \<longleftrightarrow> m \<in> {''GET'', ''HEAD'', ''OPTIONS'', ''TRACE''})"

definition status_classes_documented :: "http_lib \<Rightarrow> bool" where
  "status_classes_documented L \<longleftrightarrow>
     (\<forall>s. is_success L s \<longleftrightarrow> 200 \<le> s \<and> s < 300) \<and> (\<forall>s. is_redirection L s \<longleftrightarrow> 300 \<le> s \<and> s < 400)"

text \<open>A parsed HTTP date lies between the Unix epoch and the end of the year 9999; a \<open>SystemTime\<close>
  counts its seconds in 64 signed bits.\<close>

definition http_date_documented :: "http_lib \<Rightarrow> bool" where
  "http_date_documented L \<longleftrightarrow>
     (\<forall>s t. parse_http_date L s = Some t \<longrightarrow> 0 \<le> t \<and> t \<le> int (from_secs 253402300799))"

definition system_time_range :: "system_time \<Rightarrow> bool" where
  "system_time_range t \<longleftrightarrow> - (2 ^ 63 * 1000000000) \<le> t \<and> t < 2 ^ 63 * 1000000000"

text \<open>A concrete instance with that behaviour, for evaluating examples. Its dates are plain
  decimal seconds, since the calendar syntax of HTTP dates plays no part in the sources.\<close>

definition token_char :: "char \<Rightarrow> bool" where
  "token_char c \<longleftrightarrow> is_ascii_digit c \<or> (65 \<le> code c \<and> code c \<le> 90) \<or>
     (97 \<le> code c \<and> code c \<le> 122) \<or> c \<in> set ''!#$%&*+-.^_|~''"

definition http_example :: http_lib where
  "http_example =
     \<lparr>to_str = (\<lambda>v. if list_all visible_ascii v then Some v else None),
      header_name_from_bytes =
        (\<lambda>b. if b \<noteq> [] \<and> list_all token_char b then Some (to_ascii_lowercase b) else None),
      parse_http_date = (\<lambda>s. case parse_u64 s of None \<Rightarrow> None
        | Some n \<Rightarrow> if n \<le> 253402300799 then Some (int (from_secs n)) else None),
      is_safe = (\<lambda>m. m \<in> {''GET'', ''HEAD'', ''OPTIONS'', ''TRACE''}),
      is_success = (\<lambda>s. 200 \<le> s \<and> s < 300),
      is_redirection = (\<lambda>s. 300 \<le> s \<and> s < 400),
      canonical_reason =
        (\<lambda>s. if s = 400 then Some ''Bad Request'' else
             if s = 500 then Some ''Internal Server Error'' else
             if s = 502 then Some ''Bad Gateway'' else
             if s = 504 then Some ''Gateway Timeout'' else None)\<rparr>"

lemma http_example_documented:
  "to_str_documented http_example" "header_name_documented http_example"
  "is_safe_documented http_example" "status_classes_documented http_example"
  "http_date_documented http_example"
  by (auto simp: http_date_documented_def http_example_def to_str_documented_def header_name_documented_def
      is_safe_documented_def status_classes_documented_def
      split: option.splits if_splits)

lemma to_strD: "to_str_documented L \<Longrightarrow> to_str L v = Some s \<Longrightarrow> s = v \<and> list_all visible_ascii v"
  by (auto simp: to_str_documented_def split: if_splits)

lemma to_strI: "to_str_documented L \<Longrightarrow> list_all visible_ascii v \<Longrightarrow> to_str L v = Some v"
  by (simp add: to_str_documented_def)

end
