(* ===== verification/Cache_Control.thy ===== *)
theory Cache_Control
  imports Http
begin

text \<open>
  \<open>Directives\<close> of \<^verbatim>\<open>src/src/cache.rs\<close>: the parser of \<open>Cache-Control\<close> fields.
  \<open>split_outside_quotes\<close> is the source's loop over \<open>char_indices\<close> with its byte positions;
  \<open>split_quoted\<close> is a structural reference for it. The lemmas show that the loop computes the
  reference, that the split is the only one with its properties, and what \<open>seconds\<close> reads.
\<close>

section \<open>Splitting on commas outside quotes\<close>

abbreviation backslash :: char where "backslash \<equiv> CHR 0x5C"
abbreviation dquote :: char where "dquote \<equiv> CHR 0x22"
abbreviation comma :: char where "comma \<equiv> CHR '',''"

fun split_loop ::
  "string \<Rightarrow> string \<Rightarrow> nat \<Rightarrow> nat \<Rightarrow> bool \<Rightarrow> bool \<Rightarrow> string list \<Rightarrow> string list" where
  "split_loop value [] i start quoted escaped parts = parts @ [drop start value]"
| "split_loop value (c # cs) i start quoted escaped parts =
     (if escaped then split_loop value cs (Suc i) start quoted False parts
      else if c = backslash \<and> quoted then split_loop value cs (Suc i) start quoted True parts
      else if c = dquote then split_loop value cs (Suc i) start (\<not> quoted) escaped parts
      else if c = comma \<and> \<not> quoted then
        split_loop value cs (Suc i) (Suc i) quoted escaped
          (parts @ [take (i - start) (drop start value)])
      else split_loop value cs (Suc i) start quoted escaped parts)"

definition split_outside_quotes :: "string \<Rightarrow> string list" where
  "split_outside_quotes value = split_loop value value 0 0 False False []"

text \<open>The reference: the next quoting state after a character, and a split that starts a new
  part at each comma met in the unquoted state.\<close>

fun quote_step :: "bool \<times> bool \<Rightarrow> char \<Rightarrow> bool \<times> bool" where
  "quote_step (quoted, escaped) c =
     (if escaped then (quoted, False)
      else if c = backslash \<and> quoted then (quoted, True)
      else if c = dquote then (\<not> quoted, escaped)
      else (quoted, escaped))"

fun separates :: "bool \<times> bool \<Rightarrow> char \<Rightarrow> bool" where
  "separates (quoted, escaped) c \<longleftrightarrow> \<not> escaped \<and> \<not> quoted \<and> c = comma"

fun split_quoted :: "bool \<times> bool \<Rightarrow> string \<Rightarrow> string list" where
  "split_quoted q [] = [[]]"
| "split_quoted q (c # cs) =
     (if separates q c then [] # split_quoted (quote_step q c) cs
      else (case split_quoted (quote_step q c) cs of
              [] \<Rightarrow> [[c]] | p # ps \<Rightarrow> (c # p) # ps))"

lemma split_quoted_nonempty [simp]: "split_quoted q s \<noteq> []"
  by (cases s) (auto split: list.splits)

lemma split_loop_eq:
  assumes "start \<le> i" and "value = before @ cs" and "length before = i"
  shows "split_loop value cs i start quoted escaped parts =
    parts @ (drop start before @ hd (split_quoted (quoted, escaped) cs)) #
      tl (split_quoted (quoted, escaped) cs)"
  using assms
proof (induction cs arbitrary: before i start quoted escaped parts)
  case Nil
  then show ?case by simp
next
  case (Cons c cs)
  obtain p ps where sp: "split_quoted (quote_step (quoted, escaped) c) cs = p # ps"
    by (cases "split_quoted (quote_step (quoted, escaped) c) cs") auto
  have val: "value = (before @ [c]) @ cs" and len: "length (before @ [c]) = Suc i"
    using Cons.prems by simp_all
  have slice: "take (i - start) (drop start value) = drop start before"
    using Cons.prems by simp
  have new: "drop (Suc i) (before @ [c]) = []" using len by simp
  have old: "drop start (before @ [c]) = drop start before @ [c]"
    using Cons.prems by simp
  show ?case
  proof (cases "separates (quoted, escaped) c")
    case True
    then show ?thesis
      using Cons.IH [OF _ val len, of "Suc i"] sp slice new by simp
  next
    case False
    obtain q' e' where q': "quote_step (quoted, escaped) c = (q', e')"
      by (cases "quote_step (quoted, escaped) c")
    have "split_loop value (c # cs) i start quoted escaped parts =
        split_loop value cs (Suc i) start q' e' parts"
      using False q' by (auto split: if_splits)
    also have "\<dots> = parts @ (drop start (before @ [c]) @ p) # ps"
      using Cons.IH [OF _ val len, of start q' e' parts] Cons.prems(1) sp q' by simp
    finally show ?thesis using False sp old by simp
  qed
qed

lemma split_outside_quotes_eq: "split_outside_quotes value = split_quoted (False, False) value"
  using split_loop_eq [of 0 0 "value" "[]" "value" False False "[]"]
  by (simp add: split_outside_quotes_def)

definition quote_run :: "bool \<times> bool \<Rightarrow> string \<Rightarrow> bool \<times> bool" where
  "quote_run q s = foldl quote_step q s"

fun no_separator :: "bool \<times> bool \<Rightarrow> string \<Rightarrow> bool" where
  "no_separator q [] \<longleftrightarrow> True"
| "no_separator q (c # cs) \<longleftrightarrow> \<not> separates q c \<and> no_separator (quote_step q c) cs"

lemma quote_run_simps [simp]:
  "quote_run q [] = q"
  "quote_run q (c # s) = quote_run (quote_step q c) s"
  by (simp_all add: quote_run_def)

lemma no_separator_one: "no_separator q p \<Longrightarrow> split_quoted q p = [p]"
  by (induction p arbitrary: q) auto

lemma split_quoted_append:
  assumes "no_separator q p" and "quote_run q p = (False, False)"
  shows "split_quoted q (p @ comma # s) = p # split_quoted (False, False) s"
  using assms by (induction p arbitrary: q) auto

text \<open>A part is closed when its quotes are balanced, so that the comma after it separates.\<close>

definition closed_part :: "string \<Rightarrow> bool" where
  "closed_part p \<longleftrightarrow> quote_run (False, False) p = (False, False)"

lemma split_quoted_join:
  assumes "ps \<noteq> []" and "\<forall>p\<in>set ps. no_separator (False, False) p"
    and "\<forall>p\<in>set (butlast ps). closed_part p"
  shows "split_quoted (False, False) (join [comma] ps) = ps"
  using assms
  by (induction "[comma]" ps rule: join.induct)
    (simp_all add: no_separator_one split_quoted_append closed_part_def)

lemma split_quoted_spec:
  "join [comma] (split_quoted q s) = s \<and>
   no_separator q (hd (split_quoted q s)) \<and>
   (\<forall>p\<in>set (tl (split_quoted q s)). no_separator (False, False) p) \<and>
   (tl (split_quoted q s) \<noteq> [] \<longrightarrow> quote_run q (hd (split_quoted q s)) = (False, False)) \<and>
   (\<forall>p\<in>set (butlast (tl (split_quoted q s))). closed_part p)"
proof (induction s arbitrary: q)
  case Nil
  show ?case by simp
next
  case (Cons c s)
  obtain p ps where sp: "split_quoted (quote_step q c) s = p # ps"
    by (cases "split_quoted (quote_step q c) s") auto
  have IH: "join [comma] (p # ps) = s" "no_separator (quote_step q c) p"
    "\<forall>p\<in>set ps. no_separator (False, False) p"
    "ps \<noteq> [] \<longrightarrow> quote_run (quote_step q c) p = (False, False)"
    "\<forall>p\<in>set (butlast ps). closed_part p"
    using Cons.IH [of "quote_step q c"] sp by simp_all
  show ?case
  proof (cases "separates q c")
    case True
    then have "c = comma" and "q = (False, False)" and "quote_step q c = (False, False)"
      by (cases q; auto)+
    then show ?thesis using True sp IH by (cases ps) (auto simp: closed_part_def)
  next
    case False
    then show ?thesis using sp IH by (cases ps) auto
  qed
qed

section \<open>Directives\<close>

record directives =
  dir_list :: "(string \<times> string option) list"
  malformed :: bool

definition no_directives :: directives where
  "no_directives = \<lparr>dir_list = [], malformed = False\<rparr>"

definition unquote :: "string \<Rightarrow> string" where
  "unquote a =
     (case Option.bind (strip_prefix dquote a) (strip_suffix dquote) of Some b \<Rightarrow> b | None \<Rightarrow> a)"

definition directive_of_part :: "string \<Rightarrow> (string \<times> string option) list" where
  "directive_of_part part =
     (let (name, arg) =
        (case split_once (CHR ''='') part of
           Some (n, a) \<Rightarrow> (n, Some (unquote (trim a)))
         | None \<Rightarrow> (part, None));
        name = to_ascii_lowercase (trim name)
      in if name \<noteq> [] then [(name, arg)] else [])"

fun parse_directives_loop :: "http_lib \<Rightarrow> header_value list \<Rightarrow> directives \<Rightarrow> directives" where
  "parse_directives_loop L [] d = d"
| "parse_directives_loop L (v # vs) d =
     (case to_str L v of
        None \<Rightarrow> parse_directives_loop L vs (d\<lparr>malformed := True\<rparr>)
      | Some s \<Rightarrow> parse_directives_loop L vs
          (d\<lparr>dir_list := dir_list d @ concat (map directive_of_part (split_outside_quotes s))\<rparr>))"

definition parse_directives :: "http_lib \<Rightarrow> header_value list \<Rightarrow> directives" where
  "parse_directives L vs = parse_directives_loop L vs no_directives"

definition has :: "directives \<Rightarrow> string \<Rightarrow> bool" where
  "has d name \<longleftrightarrow> list_ex (\<lambda>(n, _). n = name) (dir_list d)"

definition seconds :: "directives \<Rightarrow> string \<Rightarrow> duration option" where
  "seconds d name =
     (case find (\<lambda>(n, _). n = name) (dir_list d) of
        None \<Rightarrow> None
      | Some (_, arg) \<Rightarrow>
          (let a = (case arg of Some a \<Rightarrow> a | None \<Rightarrow> []) in
           if a = [] \<or> \<not> list_all is_ascii_digit a then Some 0
           else Some (from_secs (case parse_u64 a of Some n \<Rightarrow> n | None \<Rightarrow> u64_max))))"

subsection \<open>What the parser keeps\<close>

lemma parse_directives_loop_list:
  "dir_list (parse_directives_loop L vs d) =
     dir_list d @ concat (map (\<lambda>v. case to_str L v of None \<Rightarrow> []
        | Some s \<Rightarrow> concat (map directive_of_part (split_outside_quotes s))) vs)"
  by (induction vs arbitrary: d) (auto split: option.splits)

lemma parse_directives_loop_malformed:
  "malformed (parse_directives_loop L vs d) \<longleftrightarrow> malformed d \<or> (\<exists>v\<in>set vs. to_str L v = None)"
  by (induction vs arbitrary: d) (auto split: option.splits)

lemma malformed_iff: "malformed (parse_directives L vs) \<longleftrightarrow> (\<exists>v\<in>set vs. to_str L v = None)"
  by (simp add: parse_directives_def parse_directives_loop_malformed no_directives_def)

lemma dir_list_parse:
  "dir_list (parse_directives L vs) = concat (map (\<lambda>v. case to_str L v of None \<Rightarrow> []
     | Some s \<Rightarrow> concat (map directive_of_part (split_outside_quotes s))) vs)"
  by (simp add: parse_directives_def parse_directives_loop_list no_directives_def)

lemma has_iff: "has d name \<longleftrightarrow> name \<in> fst ` set (dir_list d)"
  by (force simp: has_def list_ex_iff)

lemma has_find: "has d name \<longleftrightarrow> find (\<lambda>(n, _). n = name) (dir_list d) \<noteq> None"
  unfolding find_None_iff by (auto simp: has_def list_ex_iff)

lemma seconds_None: "seconds d name = None \<longleftrightarrow> \<not> has d name"
  unfolding has_find by (auto simp: seconds_def Let_def split: option.splits)

lemma seconds_bound: "seconds d name = Some t \<Longrightarrow> t \<le> from_secs u64_max"
  by (auto simp: seconds_def Let_def parse_u64_bound split: option.splits if_splits)

lemma directive_name_normal:
  "(n, a) \<in> set (directive_of_part part) \<Longrightarrow> n \<noteq> [] \<and> to_ascii_lowercase n = n"
  by (auto simp: directive_of_part_def Let_def split: option.splits if_splits prod.splits)

lemma directive_names_normal:
  "(n, a) \<in> set (dir_list (parse_directives L vs)) \<Longrightarrow> n \<noteq> [] \<and> to_ascii_lowercase n = n"
  by (auto simp: dir_list_parse split: option.splits dest: directive_name_normal)

text \<open>A field with one directive \<open>name=n\<close>: the number in decimal is read back.\<close>

lemma visible_digit: "is_ascii_digit c \<Longrightarrow> visible_ascii c"
  by (simp add: is_ascii_digit_def visible_ascii_def)

lemma no_ws_digits:
  assumes "list_all is_ascii_digit ds"
  shows "trim ds = ds"
proof (rule trim_id)
  have nows: "\<not> ws1 c" "\<not> ws2 c b" "\<not> ws3 c b e" if "is_ascii_digit c" for b c e
    using that by (auto simp: is_ascii_digit_def ws1_def ws2_def ws3_def)
  show "ws_len ds = 0" using assms by (cases ds rule: ws_len.cases) (auto simp: nows)
  have "list_all is_ascii_digit (rev ds)" using assms by simp
  then show "ws_len_end ds = 0"
    by (auto simp: ws_len_end_def nows split: list.splits)
qed

lemma plain_char: "is_ascii_digit c \<Longrightarrow> \<not> separates q c \<and> quote_step (False, False) c = (False, False)"
  by (cases q) (auto simp: is_ascii_digit_def)

lemma split_digits_tail:
  assumes "list_all is_ascii_digit ds" and "no_separator (False, False) p"
    and "quote_run (False, False) p = (False, False)"
  shows "split_outside_quotes (p @ ds) = [p @ ds]"
proof -
  have run: "no_separator q (p @ ds) \<longleftrightarrow> no_separator q p \<and> no_separator (quote_run q p) ds" for q
    by (induction p arbitrary: q) auto
  have "no_separator (False, False) ds"
    using assms(1) by (induction ds) (auto simp: plain_char is_ascii_digit_def)
  then show ?thesis using run assms by (simp add: split_outside_quotes_eq no_separator_one)
qed

lemma unquote_digits: "list_all is_ascii_digit ds \<Longrightarrow> unquote ds = ds"
  by (cases ds) (auto simp: unquote_def strip_prefix_def is_ascii_digit_def)

lemma split_once_app: "c \<notin> set a \<Longrightarrow> split_once c (a @ c # b) = Some (a, b)"
  by (induction a) (auto simp: split_once_def)

lemma seconds_decimal:
  assumes lib: "to_str_documented L" and ds: "ds \<noteq> []" "list_all is_ascii_digit ds"
    and n: "list_all visible_ascii name" "no_separator (False, False) name"
      "quote_run (False, False) name = (False, False)" "CHR ''='' \<notin> set name"
      "to_ascii_lowercase (trim name) = low" "low \<noteq> []"
  shows "seconds (parse_directives L [name @ ''='' @ ds]) low =
    Some (from_secs (min (digits_value ds) u64_max))"
proof -
  have run: "no_separator q (name @ s) \<longleftrightarrow> no_separator q name \<and> no_separator (quote_run q name) s"
    for q s by (induction name arbitrary: q) auto
  have run2: "quote_run q (name @ s) = quote_run (quote_run q name) s" for q s
    by (simp add: quote_run_def)
  have vis: "list_all visible_ascii (name @ ''='' @ ds)"
    using n(1) ds(2) by (auto simp: list_all_iff visible_digit) (simp add: visible_ascii_def)
  have sp: "split_outside_quotes (name @ ''='' @ ds) = [name @ ''='' @ ds]"
    using split_digits_tail [OF ds(2), of "name @ ''=''"] n run run2 by simp
  have "trim name \<noteq> []" using n(5,6) by auto
  then have "dir_list (parse_directives L [name @ ''='' @ ds]) = [(low, Some ds)]"
    using n ds sp split_once_app [OF n(4), of ds]
    by (simp add: dir_list_parse to_strI [OF lib vis, simplified] directive_of_part_def
        no_ws_digits unquote_digits)
  then show ?thesis
    using ds by (simp add: seconds_def parse_u64_digits min_def)
qed

subsection \<open>Letter case\<close>

text \<open>Lower-casing a field value moves no comma, quote, equals sign or white space.\<close>

lemma ascii_lower_eq_iff:
  assumes "code d < 65 \<or> (90 < code d \<and> code d < 97) \<or> 122 < code d"
  shows "ascii_lower c = d \<longleftrightarrow> c = d"
proof
  assume l: "ascii_lower c = d"
  then have "code (ascii_lower c) = code d" by simp
  then have "\<not> (65 \<le> code c \<and> code c \<le> 90)"
    using assms by (auto simp: code_ascii_lower split: if_splits)
  then show "c = d" using l by (auto simp: ascii_lower_def)
next
  assume "c = d"
  then show "ascii_lower c = d" using assms by (auto simp: ascii_lower_def)
qed

lemma ascii_lower_special [simp]:
  "ascii_lower c = comma \<longleftrightarrow> c = comma" "ascii_lower c = dquote \<longleftrightarrow> c = dquote"
  "ascii_lower c = backslash \<longleftrightarrow> c = backslash" "ascii_lower c = CHR ''='' \<longleftrightarrow> c = CHR ''=''"
  by (rule ascii_lower_eq_iff, simp)+

lemma separates_lower [simp]: "separates q (ascii_lower c) = separates q c"
  by (cases q) simp

lemma quote_step_lower [simp]: "quote_step q (ascii_lower c) = quote_step q c"
  by (cases q) simp

lemma split_quoted_lower:
  "split_quoted q (to_ascii_lowercase s) = map to_ascii_lowercase (split_quoted q s)"
  by (induction s arbitrary: q) (auto split: list.splits)

lemma ws_lower [simp]:
  "ws1 (ascii_lower c) = ws1 c"
  "ws2 (ascii_lower a) (ascii_lower b) = ws2 a b"
  "ws3 (ascii_lower a) (ascii_lower b) (ascii_lower c) = ws3 a b c"
  by (auto simp: ws1_def ws2_def ws3_def code_ascii_lower)

lemma ws_len_lower [simp]: "ws_len (to_ascii_lowercase s) = ws_len s"
  by (cases s rule: ws_len.cases) simp_all

lemma ws_len_end_lower [simp]: "ws_len_end (to_ascii_lowercase s) = ws_len_end s"
  by (simp add: ws_len_end_def to_ascii_lowercase_def rev_map split: list.splits)

lemma trim_start_lower: "trim_start (to_ascii_lowercase s) = to_ascii_lowercase (trim_start s)"
proof (induction s rule: trim_start.induct)
  case (1 s)
  then show ?case
    by (simp add: trim_start.simps [of s] trim_start.simps [of "to_ascii_lowercase s"])
      (simp add: to_ascii_lowercase_def drop_map)
qed

lemma trim_end_lower: "trim_end (to_ascii_lowercase s) = to_ascii_lowercase (trim_end s)"
proof (induction s rule: trim_end.induct)
  case (1 s)
  then show ?case
    by (simp add: trim_end.simps [of s] trim_end.simps [of "to_ascii_lowercase s"])
      (simp add: to_ascii_lowercase_def take_map)
qed

lemma trim_lower: "trim (to_ascii_lowercase s) = to_ascii_lowercase (trim s)"
  by (simp add: trim_def trim_start_lower trim_end_lower)

lemma split_once_lower:
  "split_once (CHR ''='') (to_ascii_lowercase s) =
     map_option (map_prod to_ascii_lowercase to_ascii_lowercase) (split_once (CHR ''='') s)"
proof (cases "split_once (CHR ''='') s")
  case None
  then have "CHR ''='' \<notin> set (to_ascii_lowercase s)"
    unfolding to_ascii_lowercase_def by (auto simp: split_once_None dest: sym)
  then have "split_once (CHR ''='') (to_ascii_lowercase s) = None"
    by (simp only: split_once_None not_False_eq_True)
  with None show ?thesis by simp
next
  case (Some ab)
  then obtain a b where ab: "ab = (a, b)" "s = a @ CHR ''='' # b" "CHR ''='' \<notin> set a"
    using split_once_Some by (cases ab) blast
  have eq: "to_ascii_lowercase s = to_ascii_lowercase a @ CHR ''='' # to_ascii_lowercase b"
    using ab(2) by simp
  have "CHR ''='' \<notin> set (to_ascii_lowercase a)"
    using ab(3) unfolding to_ascii_lowercase_def by (auto dest: sym)
  from split_once_app [OF this] show ?thesis using Some ab(1) eq by simp
qed

lemma directive_names_lower:
  "map fst (directive_of_part (to_ascii_lowercase p)) = map fst (directive_of_part p)"
  by (auto simp: directive_of_part_def split_once_lower trim_lower Let_def
      split: option.splits prod.splits)

lemma visible_lower: "list_all visible_ascii (to_ascii_lowercase v) = list_all visible_ascii v"
  by (induction v) (auto simp: visible_ascii_def code_ascii_lower)

lemma dir_names_lower:
  assumes "to_str_documented L"
  shows "map fst (dir_list (parse_directives L (map to_ascii_lowercase vs))) =
    map fst (dir_list (parse_directives L vs))"
  using assms
  by (induction vs)
    (simp_all add: dir_list_parse to_str_documented_def visible_lower split_outside_quotes_eq
      split_quoted_lower map_concat comp_def directive_names_lower)

section \<open>Properties\<close>

text \<open>
  C32. \<open>split_outside_quotes\<close> is fully characterised: it is the only way to cut the field value
  at commas such that no part has a comma outside quotes and every part that a comma follows
  has its quotes closed. In particular joining the parts with commas gives the value back.
\<close>

theorem split_outside_quotes_unique:
  "split_outside_quotes v = ps \<longleftrightarrow>
     ps \<noteq> [] \<and> join [comma] ps = v \<and> list_all (no_separator (False, False)) ps \<and>
     list_all closed_part (butlast ps)"
proof
  let ?ps = "split_quoted (False, False) v"
  obtain q qs where q: "?ps = q # qs" by (cases ?ps) auto
  assume "split_outside_quotes v = ps"
  then have ps: "ps = ?ps" by (simp add: split_outside_quotes_eq)
  show "ps \<noteq> [] \<and> join [comma] ps = v \<and> list_all (no_separator (False, False)) ps \<and>
     list_all closed_part (butlast ps)"
    using split_quoted_spec [of "(False, False)" v] ps q
    by (auto simp: list_all_iff closed_part_def)
next
  assume "ps \<noteq> [] \<and> join [comma] ps = v \<and> list_all (no_separator (False, False)) ps \<and>
     list_all closed_part (butlast ps)"
  then show "split_outside_quotes v = ps"
    using split_quoted_join [of ps] by (simp add: split_outside_quotes_eq list_all_iff)
qed

text \<open>
  C33. A \<open>Cache-Control\<close> field \<open>max-age=n\<close> written in decimal is read back as \<open>n\<close> seconds, and
  as \<open>u64::MAX\<close> seconds when \<open>n\<close> does not fit in 64 bits.
\<close>

theorem seconds_max_age_roundtrip:
  assumes "to_str_documented L"
  shows "seconds (parse_directives L [''max-age='' @ to_decimal n]) ''max-age'' =
    Some (from_secs (min n u64_max))"
proof -
  have t: "to_ascii_lowercase (trim ''max-age'') = ''max-age''"
    by (code_simp)
  show ?thesis
    using seconds_decimal [OF assms, of "to_decimal n" "''max-age''" "''max-age''"]
      to_decimal_digits [of n] t
    by (simp add: visible_ascii_def)
qed

theorem seconds_max_age_roundtrip_witness:
  "seconds (parse_directives http_example [''max-age='' @ to_decimal 60]) ''max-age'' =
    Some (from_secs 60)"
  using seconds_max_age_roundtrip [OF http_example_documented(1), of 60]
  by (simp add: u64_max_def)

text \<open>
  Directive names ignore letter case: lower-casing every field value changes neither the
  directives found nor their order.
\<close>

theorem directive_names_ignore_case:
  assumes "to_str_documented L"
  shows "has (parse_directives L (map to_ascii_lowercase vs)) name \<longleftrightarrow>
    has (parse_directives L vs) name"
  using dir_names_lower [OF assms, of vs] by (metis has_iff list.set_map)

theorem directive_names_ignore_case_witness:
  "has (parse_directives http_example (map to_ascii_lowercase ['' Public , MAX-AGE=60''])) ''max-age''
   \<longleftrightarrow> has (parse_directives http_example ['' Public , MAX-AGE=60'']) ''max-age''"
  by (rule directive_names_ignore_case [OF http_example_documented(1)])

end
