(* ===== verification/Store.thy ===== *)
theory Store
  imports Policy
begin

text \<open>
  The store of \<^verbatim>\<open>src/src/cache.rs\<close>: keys, stored responses, the byte-bounded cache and its
  operations.
  The moka caches \<open>entries\<close> and \<open>index\<close> are third-party code. The state of each is the log of
  the calls made on it, newest first, and its answers are the functions of the record \<open>moka\<close>,
  an argument of the operations. \<open>moka_sound\<close> is what the store relies on: a \<open>get\<close> returns
  nothing but the latest value inserted for the key, not invalidated since and not past its
  expiry; an entry may be gone at any time, because the cache evicts.
  \<open>Arc::ptr_eq\<close> compares allocations: every stored response carries the number of its \<open>Arc\<close>,
  drawn from the counter \<open>st_next_arc\<close>.
  Each operation reads the clock once, at \<open>now\<close> (\<open>wall\<close> for \<open>SystemTime::now\<close>), and runs
  atomically.
\<close>

section \<open>Keys and entries\<close>

definition MIB :: nat where
  "MIB = 1024 * 1024"

definition MAX_ENTRY_BYTES :: nat where
  "MAX_ENTRY_BYTES = 8 * MIB"

definition MAX_INDEXED_URIS :: nat where
  "MAX_INDEXED_URIS = 65536"

record primary_key =
  pk_scheme :: string
  pk_host :: string
  pk_path_and_query :: string

definition primary_key_new :: "string \<Rightarrow> string \<Rightarrow> string \<Rightarrow> primary_key" where
  "primary_key_new scheme host path_and_query =
     \<lparr>pk_scheme = to_ascii_lowercase scheme, pk_host = to_ascii_lowercase host,
      pk_path_and_query = path_and_query\<rparr>"

definition primary_weight :: "primary_key \<Rightarrow> nat" where
  "primary_weight p = length (pk_scheme p) + length (pk_host p) + length (pk_path_and_query p)"

record vary_index =
  ix_vary :: "header_name list"
  ix_generation :: "64 word"

record response_key =
  rk_primary :: primary_key
  rk_generation :: "64 word"
  rk_vary :: "string option list"

record flight_key =
  fk_primary :: primary_key
  fk_vary :: "string option list"

record asset =
  as_content :: string
  as_etag :: string
  as_modified :: system_time
  as_len :: nat
  as_ttl :: duration

record stored_response =
  sr_status :: status_code
  sr_headers :: fields
  sr_body :: string
  sr_stored_at :: instant
  sr_initial_age :: duration
  sr_ttl :: duration
  sr_grace :: duration
  sr_stale :: stale_rules
  sr_arc :: nat

datatype cache_key = AssetKey string | ResponseKey response_key
datatype entry = AssetEntry asset | ResponseEntry stored_response

section \<open>Stored responses\<close>

definition response_age :: "stored_response \<Rightarrow> instant \<Rightarrow> fault + duration" where
  "response_age r now = add_dur (sr_initial_age r) (elapsed (sr_stored_at r) now)"

definition is_fresh :: "stored_response \<Rightarrow> instant \<Rightarrow> bool" where
  "is_fresh r now \<longleftrightarrow> elapsed (sr_stored_at r) now < sr_ttl r"

definition staleness :: "stored_response \<Rightarrow> instant \<Rightarrow> duration option" where
  "staleness r now = checked_sub (elapsed (sr_stored_at r) now) (sr_ttl r)"

definition stale_within :: "stored_response \<Rightarrow> duration \<Rightarrow> instant \<Rightarrow> bool" where
  "stale_within r window now \<longleftrightarrow>
     \<not> must_revalidate_rule (sr_stale r) \<and>
     (case staleness r now of None \<Rightarrow> False | Some s \<Rightarrow> s < window)"

definition may_serve_while_revalidating :: "stored_response \<Rightarrow> instant \<Rightarrow> bool" where
  "may_serve_while_revalidating r now = stale_within r (while_revalidate (sr_stale r)) now"

definition may_serve_on_error :: "stored_response \<Rightarrow> instant \<Rightarrow> bool" where
  "may_serve_on_error r now = stale_within r (if_error (sr_stale r)) now"

definition must_revalidate :: "stored_response \<Rightarrow> bool" where
  "must_revalidate r = must_revalidate_rule (sr_stale r)"

fun validators_of :: "fields \<Rightarrow> fields" where
  "validators_of [] = []"
| "validators_of ((name, value) # hs) =
     (if name = ''etag'' then (''if-none-match'', value) # validators_of hs
      else if name = ''last-modified'' then (''if-modified-since'', value) # validators_of hs
      else validators_of hs)"

definition validators :: "stored_response \<Rightarrow> fields" where
  "validators r = validators_of (sr_headers r)"

record stale_entry =
  se_response :: stored_response
  se_key :: response_key

datatype lookup_result = Fresh stored_response | Stale stale_entry

definition updated_fields :: "fields \<Rightarrow> fields \<Rightarrow> fields" where
  "updated_fields stored update =
     filter (\<lambda>(name, _). \<not> list_ex (\<lambda>(n, _). n = name) update) stored @ update"

section \<open>Weights and lifetimes of entries\<close>

definition entry_weight :: "cache_key \<Rightarrow> entry \<Rightarrow> nat" where
  "entry_weight key e =
     (let k = (case key of
            AssetKey path \<Rightarrow> length path
          | ResponseKey rk \<Rightarrow> primary_weight (rk_primary rk) +
              sum_list (map (\<lambda>v. case v of None \<Rightarrow> 0 | Some s \<Rightarrow> length s) (rk_vary rk)));
          v = (case e of
            AssetEntry a \<Rightarrow> length (as_content a) + length (as_etag a)
          | ResponseEntry r \<Rightarrow> length (sr_body r) +
              sum_list (map (\<lambda>(name, value). length name + length value) (sr_headers r)))
      in saturate_u32 (k + v))"

definition entry_ttl :: "entry \<Rightarrow> duration" where
  "entry_ttl e =
     (case e of AssetEntry a \<Rightarrow> as_ttl a
      | ResponseEntry r \<Rightarrow> saturating_add_dur (sr_ttl r) (sr_grace r))"

definition index_time_to_live :: "duration \<Rightarrow> duration" where
  "index_time_to_live ttl = max (saturating_mul_dur ttl 2) (from_secs 1)"

section \<open>The moka caches\<close>

datatype ('k, 'v) moka_call = Inserted instant 'k 'v | Invalidated 'k | RanPending instant

fun latest :: "('k, 'v) moka_call list \<Rightarrow> 'k \<Rightarrow> (instant \<times> 'v) option" where
  "latest [] k = None"
| "latest (Inserted t k' v # calls) k = (if k' = k then Some (t, v) else latest calls k)"
| "latest (Invalidated k' # calls) k = (if k' = k then None else latest calls k)"
| "latest (RanPending t # calls) k = latest calls k"

record moka =
  entries_get :: "(cache_key, entry) moka_call list \<Rightarrow> instant \<Rightarrow> cache_key \<Rightarrow> entry option"
  index_get :: "(primary_key, vary_index) moka_call list \<Rightarrow> instant \<Rightarrow> primary_key \<Rightarrow> vary_index option"
  entries_count :: "(cache_key, entry) moka_call list \<Rightarrow> nat"
  entries_weight :: "(cache_key, entry) moka_call list \<Rightarrow> nat"

definition moka_sound :: "duration \<Rightarrow> moka \<Rightarrow> bool" where
  "moka_sound ttl M \<longleftrightarrow>
     (\<forall>calls now k e. entries_get M calls now k = Some e \<longrightarrow>
        (\<exists>t. latest calls k = Some (t, e) \<and> now \<le> t + entry_ttl e)) \<and>
     (\<forall>calls now p ix. index_get M calls now p = Some ix \<longrightarrow>
        (\<exists>t. latest calls p = Some (t, ix) \<and> now \<le> t + index_time_to_live ttl))"

section \<open>The store\<close>

record store =
  st_entries :: "(cache_key, entry) moka_call list"
  st_index :: "(primary_key, vary_index) moka_call list"
  st_generation :: "64 word"
  st_refreshing :: "response_key set"
  st_ttl :: duration
  st_max_entry :: nat
  st_next_arc :: nat

definition store_new :: "nat \<Rightarrow> duration \<Rightarrow> store" where
  "store_new size_mb ttl =
     (let capacity = saturating_mul_u64 size_mb MIB
      in \<lparr>st_entries = [], st_index = [], st_generation = 0, st_refreshing = {}, st_ttl = ttl,
          st_max_entry = min capacity MAX_ENTRY_BYTES, st_next_arc = 0\<rparr>)"

definition store_enabled :: "store \<Rightarrow> bool" where
  "store_enabled s \<longleftrightarrow> 0 < st_max_entry s \<and> st_ttl s \<noteq> 0"

definition entry_count :: "moka \<Rightarrow> store \<Rightarrow> instant \<Rightarrow> nat \<times> store" where
  "entry_count M s now =
     (let s' = s\<lparr>st_entries := RanPending now # st_entries s\<rparr> in (entries_count M (st_entries s'), s'))"

definition weighted_size :: "moka \<Rightarrow> store \<Rightarrow> instant \<Rightarrow> nat \<times> store" where
  "weighted_size M s now =
     (let s' = s\<lparr>st_entries := RanPending now # st_entries s\<rparr> in (entries_weight M (st_entries s'), s'))"

definition asset_lookup :: "moka \<Rightarrow> store \<Rightarrow> instant \<Rightarrow> string \<Rightarrow> asset option" where
  "asset_lookup M s now path =
     (case entries_get M (st_entries s) now (AssetKey path) of
        Some (AssetEntry a) \<Rightarrow> Some a | _ \<Rightarrow> None)"

definition insert_asset ::
  "store \<Rightarrow> instant \<Rightarrow> string \<Rightarrow> string \<Rightarrow> string \<Rightarrow> system_time \<Rightarrow> asset \<times> store" where
  "insert_asset s now path content etag modified =
     (let a = \<lparr>as_content = content, as_etag = etag, as_modified = modified,
               as_len = length content, as_ttl = st_ttl s\<rparr>
      in (a, if store_enabled s \<and> as_len a \<le> st_max_entry s
             then s\<lparr>st_entries := RanPending now # Inserted now (AssetKey path) (AssetEntry a) # st_entries s\<rparr>
             else s))"

definition lookup ::
  "moka \<Rightarrow> store \<Rightarrow> instant \<Rightarrow> primary_key \<Rightarrow> fields \<Rightarrow> duration option \<Rightarrow> fault + lookup_result option" where
  "lookup M s now primary request oldest =
     (case index_get M (st_index s) now primary of
        None \<Rightarrow> Inr None
      | Some ix \<Rightarrow>
          let key = \<lparr>rk_primary = primary, rk_generation = ix_generation ix,
                     rk_vary = vary_values (ix_vary ix) request\<rparr>
          in (case entries_get M (st_entries s) now (ResponseKey key) of
                Some (ResponseEntry r) \<Rightarrow>
                  if \<not> is_fresh r now then Inr (Some (Stale \<lparr>se_response = r, se_key = key\<rparr>))
                  else (case oldest of
                          None \<Rightarrow> Inr (Some (Fresh r))
                        | Some m \<Rightarrow>
                            (case response_age r now of
                               Inl f \<Rightarrow> Inl f
                             | Inr a \<Rightarrow> if a \<le> m then Inr (Some (Fresh r))
                                 else Inr (Some (Stale \<lparr>se_response = r, se_key = key\<rparr>))))
              | _ \<Rightarrow> Inr None))"

definition flight_key_of :: "moka \<Rightarrow> store \<Rightarrow> instant \<Rightarrow> primary_key \<Rightarrow> fields \<Rightarrow> flight_key option" where
  "flight_key_of M s now primary request =
     (if \<not> store_enabled s then None
      else Some \<lparr>fk_primary = primary,
                 fk_vary = (case index_get M (st_index s) now primary of
                              None \<Rightarrow> [] | Some ix \<Rightarrow> vary_values (ix_vary ix) request)\<rparr>)"

definition start_refresh :: "store \<Rightarrow> stale_entry \<Rightarrow> response_key option \<times> store" where
  "start_refresh s e =
     (if se_key e \<in> st_refreshing s then (None, s)
      else (Some (se_key e), s\<lparr>st_refreshing := insert (se_key e) (st_refreshing s)\<rparr>))"

definition drop_refresh_guard :: "store \<Rightarrow> response_key \<Rightarrow> store" where
  "drop_refresh_guard s key = s\<lparr>st_refreshing := st_refreshing s - {key}\<rparr>"

definition new_response ::
  "store \<Rightarrow> instant \<Rightarrow> storable_policy \<Rightarrow> status_code \<Rightarrow> fields \<Rightarrow> string \<Rightarrow> stored_response" where
  "new_response s now policy status headers body =
     (let r = \<lparr>sr_status = status, sr_headers = headers, sr_body = body, sr_stored_at = now,
               sr_initial_age = so_initial_age policy, sr_ttl = min (so_ttl policy) (st_ttl s),
               sr_grace = 0, sr_stale = so_stale policy, sr_arc = st_next_arc s\<rparr>;
          has_validator = validators r \<noteq> []
      in r\<lparr>sr_grace := grace_period (so_stale policy) has_validator (st_ttl s)\<rparr>)"

definition insert_response ::
  "moka \<Rightarrow> store \<Rightarrow> instant \<Rightarrow> primary_key \<Rightarrow> vary_key \<Rightarrow> storable_policy \<Rightarrow> status_code \<Rightarrow>
   fields \<Rightarrow> string \<Rightarrow> stored_response option \<times> store" where
  "insert_response M s now primary vary policy status headers body =
     (if \<not> store_enabled s \<or> st_max_entry s < length body then (None, s)
      else
        let (generation, next_generation) =
              (case index_get M (st_index s) now primary of
                 Some ix \<Rightarrow> if ix_vary ix = vk_names vary then (ix_generation ix, st_generation s)
                            else (st_generation s, st_generation s + 1)
               | None \<Rightarrow> (st_generation s, st_generation s + 1));
            key = \<lparr>rk_primary = primary, rk_generation = generation, rk_vary = vk_values vary\<rparr>;
            r = new_response s now policy status headers body
        in (Some r,
            s\<lparr>st_index := Inserted now primary \<lparr>ix_vary = vk_names vary, ix_generation = generation\<rparr>
                # st_index s,
              st_generation := next_generation,
              st_entries := RanPending now # Inserted now (ResponseKey key) (ResponseEntry r) # st_entries s,
              st_next_arc := Suc (st_next_arc s)\<rparr>))"

definition is_current :: "moka \<Rightarrow> store \<Rightarrow> instant \<Rightarrow> stale_entry \<Rightarrow> bool" where
  "is_current M s now e \<longleftrightarrow>
     (case entries_get M (st_entries s) now (ResponseKey (se_key e)) of
        Some (ResponseEntry r) \<Rightarrow> sr_arc r = sr_arc (se_response e) | _ \<Rightarrow> False)"

definition unstored_response ::
  "store \<Rightarrow> instant \<Rightarrow> storable_policy \<Rightarrow> status_code \<Rightarrow> fields \<Rightarrow> string \<Rightarrow> stored_response \<times> store" where
  "unstored_response s now policy status headers body =
     (new_response s now policy status headers body, s\<lparr>st_next_arc := Suc (st_next_arc s)\<rparr>)"

definition freshen_map :: "stale_entry \<Rightarrow> fields \<Rightarrow> header_value option \<Rightarrow> fields" where
  "freshen_map e update age =
     (let headers = updated_fields (sr_headers (se_response e)) update
      in (case age of None \<Rightarrow> headers | Some a \<Rightarrow> insert_header headers ''age'' a))"

definition freshen ::
  "http_lib \<Rightarrow> moka \<Rightarrow> store \<Rightarrow> system_time \<Rightarrow> instant \<Rightarrow> stale_entry \<Rightarrow> request_policy \<Rightarrow> fields \<Rightarrow>
   fields \<Rightarrow> header_value option \<Rightarrow> stored_response \<times> store" where
  "freshen L M s wall now e policy request update age =
     (let stored = se_response e;
          headers = updated_fields (sr_headers stored) update;
          current = is_current M s now e
      in (case storable L wall policy request (sr_status stored) (freshen_map e update age) of
            Some (sp, vary) \<Rightarrow>
              if current then
                (case insert_response M s now (rk_primary (se_key e)) vary sp (sr_status stored) headers
                        (sr_body stored) of
                   (Some fresh, s') \<Rightarrow> (fresh, s')
                 | (None, s') \<Rightarrow> unstored_response s' now sp (sr_status stored) headers (sr_body stored))
              else unstored_response s now sp (sr_status stored) headers (sr_body stored)
          | None \<Rightarrow>
              unstored_response
                (if current then s\<lparr>st_entries := Invalidated (ResponseKey (se_key e)) # st_entries s\<rparr> else s)
                now default_storable (sr_status stored) headers (sr_body stored)))"

definition invalidate :: "store \<Rightarrow> primary_key \<Rightarrow> store" where
  "invalidate s primary = s\<lparr>st_index := Invalidated primary # st_index s\<rparr>"

end
