(* ===== verification/Forwarded.thy ===== *)
theory Forwarded
  imports Http
begin

text \<open>
  The client of a request, \<^verbatim>\<open>src/src/forwarded.rs\<close>, and the parts of an actix \<open>HttpRequest\<close> that
  the proxy reads. The peer address is kept as it prints.
\<close>

record http_request =
  rq_method :: http_method
  rq_headers :: fields
  rq_peer :: "string option" \<comment> \<open>\<open>peer_addr().ip()\<close>\<close>
  rq_secure :: bool \<comment> \<open>\<open>app_config().secure()\<close>\<close>
  rq_authority :: "string option" \<comment> \<open>\<open>uri().authority()\<close>\<close>
  rq_path_and_query :: "string option" \<comment> \<open>\<open>uri().path_and_query()\<close>\<close>
  rq_config_host :: string \<comment> \<open>\<open>app_config().host()\<close>\<close>

definition CLIENT_FORWARDING_HEADERS :: "header_name list" where
  "CLIENT_FORWARDING_HEADERS =
     [''forwarded'', ''x-forwarded-for'', ''x-forwarded-host'', ''x-forwarded-proto'',
      ''x-forwarded-port'', ''x-forwarded-server'', ''x-forwarded-prefix'', ''x-forwarded-uri'',
      ''x-host'', ''x-forwarded-scheme'', ''x-original-host'', ''front-end-https'', ''x-real-ip'']"

definition URL_OVERRIDE_HEADERS :: "header_name list" where
  "URL_OVERRIDE_HEADERS = [''x-original-url'', ''x-rewrite-url'']"

record client_info =
  ci_ip :: "string option"
  ci_scheme :: string
  ci_host :: string

definition client_info_from_request :: "http_lib \<Rightarrow> http_request \<Rightarrow> client_info" where
  "client_info_from_request L req =
     \<lparr>ci_ip = rq_peer req,
      ci_scheme = (if rq_secure req then ''https'' else ''http''),
      ci_host =
        (case rq_authority req of
           Some authority \<Rightarrow> authority
         | None \<Rightarrow>
             (case Option.bind (get (rq_headers req) ''host'') (to_str L) of
                Some host \<Rightarrow> host
              | None \<Rightarrow> rq_config_host req))\<rparr>"

text \<open>
  C34. A client cannot choose its address, scheme or, beyond the request target and \<open>Host\<close>, its
  host: \<open>ClientInfo\<close> is the same for two requests on the same connection that differ in any
  headers but \<open>Host\<close>, and with an absolute-form or HTTP/2 target it does not depend on
  \<open>Host\<close> either.\<close>

theorem client_info_ignores_headers:
  assumes "rq_authority req \<noteq> None \<or> get_all h ''host'' = get_all (rq_headers req) ''host''"
  shows "client_info_from_request L (req\<lparr>rq_headers := h\<rparr>) = client_info_from_request L req"
  using assms get_all_eqI_get [of h "''host''" "rq_headers req"]
  by (auto simp: client_info_from_request_def split: option.splits)

definition example_request :: http_request where
  "example_request =
     \<lparr>rq_method = ''GET'', rq_headers = [(''host'', ''Example.org'')], rq_peer = Some ''192.0.2.1'',
      rq_secure = False, rq_authority = None, rq_path_and_query = Some ''/page'',
      rq_config_host = ''localhost:8080''\<rparr>"

theorem client_info_ignores_headers_witness:
  "client_info_from_request http_example
     (example_request\<lparr>rq_headers := [(''x-forwarded-for'', ''10.0.0.1''), (''host'', ''Example.org'')]\<rparr>) =
   client_info_from_request http_example example_request"
  by (rule client_info_ignores_headers) (simp add: example_request_def)

end
