(* ===== verification/Body.thy ===== *)
theory Body
  imports Prelude
begin

text \<open>
  The bodies that the proxy streams, \<^verbatim>\<open>src/src/proxy.rs\<close>: the request body that a task pumps to
  the origin, the idle timeout on the origin's response body, and the \<open>Tee\<close> that copies a body
  into the cache while it streams.
  A stream is polled; its inner stream, the clock and the timer decide what a poll finds. The
  definitions are the poll functions, from the state of the adaptor and what the inner stream's
  poll returned to the new state and what the adaptor's poll returns, and the runs are lists of
  polls. A callback or a counter that a poll uses is an output of it.
\<close>

section \<open>Streams\<close>

datatype body_error = TimedOut | OtherError

datatype 'a poll = Pending | Ready 'a

type_synonym chunk = "body_error + string"
type_synonym chunk_poll = "chunk option poll"

section \<open>Tee\<close>

record body_copy =
  bc_buffer :: string
  bc_limit :: nat

record tee =
  te_length :: "nat option"
  te_copy :: "body_copy option"

text \<open>What happens to the copy: its finish callback gets the whole body, or it is dropped with the
  callback.\<close>

datatype copy_event = Finished string | GivenUp

definition tee_finish :: "tee \<Rightarrow> copy_event option \<times> tee" where
  "tee_finish t =
     (case te_copy t of
        None \<Rightarrow> (None, t)
      | Some c \<Rightarrow>
          (Some (if te_length t = None \<or> te_length t = Some (length (bc_buffer c))
                 then Finished (bc_buffer c) else GivenUp),
           t\<lparr>te_copy := None\<rparr>))"

definition tee_give_up :: "tee \<Rightarrow> copy_event option \<times> tee" where
  "tee_give_up t =
     (case te_copy t of None \<Rightarrow> (None, t) | Some c \<Rightarrow> (Some GivenUp, t\<lparr>te_copy := None\<rparr>))"

definition tee_new :: "nat option \<Rightarrow> body_copy option \<Rightarrow> copy_event option \<times> tee" where
  "tee_new len copy =
     (let t = \<lparr>te_length = len, te_copy = copy\<rparr>
      in if len = Some 0 then tee_finish t else (None, t))"

definition tee_chunk :: "tee \<Rightarrow> string \<Rightarrow> copy_event option \<times> tee" where
  "tee_chunk t chunk =
     (case te_copy t of
        None \<Rightarrow> (None, t)
      | Some c \<Rightarrow>
          if bc_limit c < length (bc_buffer c) + length chunk then tee_give_up t
          else let c' = c\<lparr>bc_buffer := bc_buffer c @ chunk\<rparr>; t' = t\<lparr>te_copy := Some c'\<rparr>
               in if te_length t = Some (length (bc_buffer c')) then tee_finish t' else (None, t'))"

fun tee_poll :: "tee \<Rightarrow> chunk_poll \<Rightarrow> chunk_poll \<times> copy_event option \<times> tee" where
  "tee_poll t Pending = (Pending, None, t)"
| "tee_poll t (Ready (Some (Inr chunk))) = (Ready (Some (Inr chunk)), tee_chunk t chunk)"
| "tee_poll t (Ready (Some (Inl e))) = (Ready (Some (Inl e)), tee_give_up t)"
| "tee_poll t (Ready None) = (Ready None, tee_finish t)"

text \<open>A tee polled with a list of results of its inner stream; dropping it at the end drops a copy
  that is still there.\<close>

fun tee_run :: "tee \<Rightarrow> chunk_poll list \<Rightarrow> chunk_poll list \<times> copy_event list \<times> tee" where
  "tee_run t [] = ([], [], t)"
| "tee_run t (p # ps) =
     (let (out, ev, t') = tee_poll t p; (outs, evs, t'') = tee_run t' ps
      in (out # outs, (case ev of None \<Rightarrow> [] | Some e \<Rightarrow> [e]) @ evs, t''))"

definition tee_life :: "nat option \<Rightarrow> body_copy option \<Rightarrow> chunk_poll list \<Rightarrow> chunk_poll list \<times> copy_event list" where
  "tee_life len copy ps =
     (let (ev, t) = tee_new len copy; (outs, evs, t') = tee_run t ps; (ev', _) = tee_give_up t'
      in (outs, (case ev of None \<Rightarrow> [] | Some e \<Rightarrow> [e]) @ evs @ (case ev' of None \<Rightarrow> [] | Some e \<Rightarrow> [e])))"

fun poll_bytes :: "chunk_poll \<Rightarrow> string" where
  "poll_bytes (Ready (Some (Inr chunk))) = chunk"
| "poll_bytes _ = []"

definition body_bytes :: "chunk_poll list \<Rightarrow> string" where
  "body_bytes ps = concat (map poll_bytes ps)"

fun fails :: "chunk_poll \<Rightarrow> bool" where
  "fails (Ready (Some (Inl e))) = True"
| "fails _ = False"

lemma body_bytes_simps [simp]:
  "body_bytes [] = []" "body_bytes (p # ps) = poll_bytes p @ body_bytes ps"
  by (simp_all add: body_bytes_def)

definition events :: "copy_event option \<Rightarrow> copy_event list" where
  "events ev = (case ev of None \<Rightarrow> [] | Some e \<Rightarrow> [e])"

lemma events_simps [simp]: "events None = []" "events (Some e) = [e]"
  by (simp_all add: events_def)

lemma tee_run_Cons:
  "fst (tee_run t (p # ps)) = fst (tee_poll t p) # fst (tee_run (snd (snd (tee_poll t p))) ps)"
  "fst (snd (tee_run t (p # ps))) =
     events (fst (snd (tee_poll t p))) @ fst (snd (tee_run (snd (snd (tee_poll t p))) ps))"
  "snd (snd (tee_run t (p # ps))) = snd (snd (tee_run (snd (snd (tee_poll t p))) ps))"
  by (simp_all add: Let_def case_prod_beta events_def)

lemma tee_life_eq:
  "tee_life len copy ps =
     (fst (tee_run (snd (tee_new len copy)) ps),
      events (fst (tee_new len copy)) @ fst (snd (tee_run (snd (tee_new len copy)) ps)) @
      events (fst (tee_give_up (snd (snd (tee_run (snd (tee_new len copy)) ps))))))"
  by (simp add: tee_life_def Let_def case_prod_beta events_def)

declare tee_run.simps(2) [simp del]

lemma tee_poll_transparent: "fst (tee_poll t p) = p"
  by (induction t p rule: tee_poll.induct) simp_all

lemma tee_run_transparent: "fst (tee_run t ps) = ps"
  by (induction ps arbitrary: t) (simp_all add: tee_run_Cons tee_poll_transparent)

text \<open>Without a copy nothing happens to the cache.\<close>

lemma tee_poll_no_copy: "te_copy t = None \<Longrightarrow> snd (tee_poll t p) = (None, t)"
  by (induction t p rule: tee_poll.induct)
    (simp_all add: tee_chunk_def tee_give_up_def tee_finish_def)

lemma tee_run_no_copy:
  "te_copy t = None \<Longrightarrow> fst (snd (tee_run t ps)) = [] \<and> snd (snd (tee_run t ps)) = t"
  by (induction ps) (simp_all add: tee_run_Cons tee_poll_no_copy)

text \<open>With a copy, a poll either ends the copy, with one event, or extends it.\<close>

lemma tee_poll_copy:
  assumes "te_copy t = Some c"
  shows "snd (tee_poll t Pending) = (None, t)"
    and "snd (tee_poll t (Ready (Some (Inl e)))) = (Some GivenUp, t\<lparr>te_copy := None\<rparr>)"
    and "snd (tee_poll t (Ready None)) =
      (Some (if te_length t = None \<or> te_length t = Some (length (bc_buffer c))
        then Finished (bc_buffer c) else GivenUp), t\<lparr>te_copy := None\<rparr>)"
    and "snd (tee_poll t (Ready (Some (Inr chunk)))) =
      (if bc_limit c < length (bc_buffer c @ chunk) then (Some GivenUp, t\<lparr>te_copy := None\<rparr>)
       else if te_length t = Some (length (bc_buffer c @ chunk))
         then (Some (Finished (bc_buffer c @ chunk)), t\<lparr>te_copy := None\<rparr>)
       else (None, t\<lparr>te_copy := Some (c\<lparr>bc_buffer := bc_buffer c @ chunk\<rparr>)\<rparr>))"
  using assms by (simp_all add: tee_chunk_def tee_give_up_def tee_finish_def Let_def)

declare tee_poll.simps [simp del]

lemma poll_exhaust:
  obtains "p = Pending" | e where "p = Ready (Some (Inl e))" | "p = Ready None"
    | chunk where "p = Ready (Some (Inr chunk))"
  by (metis option.exhaust poll.exhaust sum.exhaust_sel)

text \<open>Over its life a copy sees exactly one event.\<close>

lemma tee_run_one_event:
  "te_copy t = Some c \<Longrightarrow>
     length (fst (snd (tee_run t ps)) @ events (fst (tee_give_up (snd (snd (tee_run t ps)))))) = 1"
proof (induction ps arbitrary: t c)
  case Nil
  then show ?case by (simp add: tee_give_up_def)
next
  case (Cons p ps)
  have gone: "length (fst (snd (tee_run t' ps)) @ events (fst (tee_give_up (snd (snd (tee_run t' ps)))))) = 0"
    if "te_copy t' = None" for t'
    using tee_run_no_copy [OF that, of ps] that by (simp add: tee_give_up_def)
  show ?case
    by (cases p rule: poll_exhaust)
      (use Cons.IH gone Cons.prems in \<open>auto simp: tee_run_Cons tee_poll_copy [OF Cons.prems] split: if_splits\<close>)
qed

text \<open>A finished copy is what had arrived, whole and within the limit.\<close>

lemma tee_run_finished:
  assumes "te_copy t = Some c" and "length (bc_buffer c) \<le> bc_limit c"
    and "Finished body \<in> set (fst (snd (tee_run t ps)))"
  shows "\<exists>ps1 ps2. ps = ps1 @ ps2 \<and> body = bc_buffer c @ body_bytes ps1 \<and> \<not> list_ex fails ps1 \<and>
    length body \<le> bc_limit c \<and>
    (te_length t = Some (length body) \<or> te_length t = None \<and> ps1 \<noteq> [] \<and> last ps1 = Ready None)"
  using assms
proof (induction ps arbitrary: t c)
  case (Cons p ps)
  have gone: "Finished body \<notin> set (fst (snd (tee_run t' ps)))" if "te_copy t' = None" for t'
    using tee_run_no_copy [OF that, of ps] by simp
  have more: ?case
    if "te_copy t' = Some (c\<lparr>bc_buffer := bc_buffer c @ poll_bytes p\<rparr>)" "te_length t' = te_length t"
      "\<not> fails p" "length (bc_buffer c @ poll_bytes p) \<le> bc_limit c"
      "Finished body \<in> set (fst (snd (tee_run t' ps)))" for t'
  proof -
    from Cons.IH [OF that(1)] that(2-5) obtain ps1 ps2 where "ps = ps1 @ ps2"
      "body = bc_buffer c @ poll_bytes p @ body_bytes ps1" "\<not> list_ex fails ps1" "length body \<le> bc_limit c"
      "te_length t = Some (length body) \<or> te_length t = None \<and> ps1 \<noteq> [] \<and> last ps1 = Ready None"
      by auto
    then show ?thesis using that(3) by (intro exI [of _ "p # ps1"] exI [of _ ps2]) auto
  qed
  have now: ?case
    if "body = bc_buffer c @ poll_bytes p" "\<not> fails p" "length body \<le> bc_limit c"
      "te_length t = Some (length body) \<or> te_length t = None \<and> p = Ready None"
    using that by (intro exI [of _ "[p]"] exI [of _ ps]) auto
  note ev = Cons.prems(3) [unfolded tee_run_Cons]
  show ?case
  proof (cases p rule: poll_exhaust)
    case 1
    then show ?thesis using ev more [of t] Cons.prems(1,2) by (simp add: tee_poll_copy [OF Cons.prems(1)])
  next
    case (2 e)
    then show ?thesis using ev gone by (simp add: tee_poll_copy [OF Cons.prems(1)])
  next
    case 3
    then show ?thesis using ev gone now Cons.prems(2)
      by (auto simp: tee_poll_copy [OF Cons.prems(1)] split: if_splits)
  next
    case (4 chunk)
    then show ?thesis
      using ev gone now more [of "t\<lparr>te_copy := Some (c\<lparr>bc_buffer := bc_buffer c @ chunk\<rparr>)\<rparr>"]
      by (auto simp: tee_poll_copy [OF Cons.prems(1)] not_less split: if_splits)
  qed
qed simp

text \<open>A body that arrives whole and fits is finished.\<close>

fun chunks :: "string list \<Rightarrow> chunk_poll list" where
  "chunks [] = []"
| "chunks (s # ss) = Ready (Some (Inr s)) # chunks ss"

lemma body_bytes_chunks [simp]: "body_bytes (chunks ss) = concat ss"
  by (induction ss) auto

lemma tee_run_unsized:
  assumes "te_copy t = Some c" and "te_length t = None"
    and "length (bc_buffer c @ concat ss) \<le> bc_limit c"
  shows "fst (snd (tee_run t (chunks ss @ [Ready None]))) = [Finished (bc_buffer c @ concat ss)]"
  using assms
proof (induction ss arbitrary: t c)
  case Nil
  then show ?case by (simp add: tee_run_Cons tee_poll_copy [OF Nil(1)])
next
  case (Cons s ss)
  show ?case
    using Cons.IH [of "t\<lparr>te_copy := Some (c\<lparr>bc_buffer := bc_buffer c @ s\<rparr>)\<rparr>" "c\<lparr>bc_buffer := bc_buffer c @ s\<rparr>"]
      Cons.prems by (simp add: tee_run_Cons tee_poll_copy [OF Cons.prems(1)])
qed

lemma tee_run_sized:
  assumes "te_copy t = Some c" and "te_length t = Some (length (bc_buffer c @ concat ss))"
    and "length (bc_buffer c @ concat ss) \<le> bc_limit c" and "concat ss \<noteq> []"
  shows "fst (snd (tee_run t (chunks ss))) = [Finished (bc_buffer c @ concat ss)]"
  using assms
proof (induction ss arbitrary: t c)
  case (Cons s ss)
  let ?c = "c\<lparr>bc_buffer := bc_buffer c @ s\<rparr>"
  show ?case
  proof (cases "concat ss = []")
    case True
    then show ?thesis
      using Cons.prems tee_run_no_copy [of "t\<lparr>te_copy := None\<rparr>" "chunks ss"]
      by (simp add: tee_run_Cons tee_poll_copy [OF Cons.prems(1)])
  next
    case False
    then show ?thesis
      using Cons.IH [of "t\<lparr>te_copy := Some ?c\<rparr>" ?c] Cons.prems
      by (auto simp: tee_run_Cons tee_poll_copy [OF Cons.prems(1)])
  qed
qed simp

lemma tee_life_run:
  assumes "len \<noteq> Some 0" and "fst (snd (tee_run \<lparr>te_length = len, te_copy = Some c\<rparr> ps)) = [e]"
  shows "snd (tee_life len (Some c) ps) = [e]"
  using assms tee_run_one_event [of "\<lparr>te_length = len, te_copy = Some c\<rparr>" c ps]
  by (simp add: tee_life_eq tee_new_def)

section \<open>Idle timeout\<close>

text \<open>\<open>Instant + Duration\<close> panics when the instant is not representable: the clock counts seconds in
  64 signed bits. The timer is tokio's; \<open>timer_documented\<close> says that a sleep is not ready before
  its deadline, and is ready once the clock is past it by the timer's granularity of a
  millisecond.\<close>

definition instant_limit :: nat where
  "instant_limit = 9223372036854775808 * nanos_per_sec"

definition add_instant :: "instant \<Rightarrow> duration \<Rightarrow> fault + instant" where
  "add_instant t d = (if t + d < instant_limit then Inr (t + d) else Inl InstantOverflow)"

type_synonym timer = "instant \<Rightarrow> instant \<Rightarrow> bool" \<comment> \<open>deadline and reading of the clock\<close>

definition timer_documented :: "timer \<Rightarrow> bool" where
  "timer_documented sleep \<longleftrightarrow>
     (\<forall>deadline now. (sleep deadline now \<longrightarrow> deadline \<le> now) \<and>
        (deadline + 1000000 \<le> now \<longrightarrow> sleep deadline now))"

record idle_timeout =
  it_idle :: duration
  it_sleep :: instant \<comment> \<open>the deadline of the sleep\<close>
  it_waiting :: bool
  it_expired :: bool

text \<open>The fourth component of the result says whether the idle counter was incremented.\<close>

definition idle_poll ::
  "timer \<Rightarrow> idle_timeout \<Rightarrow> instant \<Rightarrow> chunk_poll \<Rightarrow> fault + (chunk_poll \<times> idle_timeout \<times> bool)" where
  "idle_poll sleep this now inner =
     (if it_expired this then Inr (Ready None, this, False)
      else case (if it_waiting this then Inr this
                 else case add_instant now (it_idle this) of
                        Inl f \<Rightarrow> Inl f
                      | Inr deadline \<Rightarrow> Inr (this\<lparr>it_sleep := deadline, it_waiting := True\<rparr>)) of
             Inl f \<Rightarrow> Inl f
           | Inr this \<Rightarrow>
               (case inner of
                  Ready item \<Rightarrow> Inr (Ready item, this\<lparr>it_waiting := False\<rparr>, False)
                | Pending \<Rightarrow>
                    if sleep (it_sleep this) now
                    then Inr (Ready (Some (Inl TimedOut)), this\<lparr>it_expired := True\<rparr>, True)
                    else Inr (Pending, this, False)))"

text \<open>\<open>origin_body\<close> starts with the sleep of \<open>tokio::time::sleep\<close>, which the first poll resets.\<close>

definition origin_body :: "duration \<Rightarrow> instant \<Rightarrow> idle_timeout" where
  "origin_body idle start = \<lparr>it_idle = idle, it_sleep = start, it_waiting = False, it_expired = False\<rparr>"

fun idle_run ::
  "timer \<Rightarrow> idle_timeout \<Rightarrow> (instant \<times> chunk_poll) list \<Rightarrow> fault + ((instant \<times> chunk_poll) list \<times> idle_timeout \<times> nat)" where
  "idle_run sleep this [] = Inr ([], this, 0)"
| "idle_run sleep this ((now, inner) # ps) =
     (case idle_poll sleep this now inner of
        Inl f \<Rightarrow> Inl f
      | Inr (out, this', counted) \<Rightarrow>
          (case idle_run sleep this' ps of
             Inl f \<Rightarrow> Inl f
           | Inr (outs, this'', n) \<Rightarrow> Inr ((now, out) # outs, this'', (if counted then Suc n else n))))"

section \<open>Request bodies\<close>

text \<open>A request payload is the list of its chunks. The channel to the origin request is open for a
  number of sends, without a bound when it stays open; \<open>pump_request_body\<close> gives the frames that
  arrive in it.\<close>

fun channel_send :: "nat option \<Rightarrow> nat option option" where
  "channel_send None = Some None"
| "channel_send (Some 0) = None"
| "channel_send (Some (Suc n)) = Some (Some n)"

fun pump_loop :: "chunk list \<Rightarrow> nat option \<Rightarrow> chunk list" where
  "pump_loop [] ch = []"
| "pump_loop (chunk # payload) ch =
     (let frame = (case chunk of Inr data \<Rightarrow> Inr data | Inl e \<Rightarrow> Inl e); failed = isl frame
      in (case channel_send ch of
            None \<Rightarrow> []
          | Some ch' \<Rightarrow> frame # (if failed then [] else pump_loop payload ch')))"

definition pump_request_body :: "string \<Rightarrow> chunk list \<Rightarrow> nat option \<Rightarrow> chunk list" where
  "pump_request_body first payload ch =
     (case channel_send ch of None \<Rightarrow> [] | Some ch' \<Rightarrow> Inr first # pump_loop payload ch')"

datatype upstream_body = EmptyBody | StreamedBody "chunk list"

definition request_body :: "chunk list \<Rightarrow> nat option \<Rightarrow> body_error + upstream_body" where
  "request_body payload ch =
     (case payload of
        [] \<Rightarrow> Inr EmptyBody
      | Inl e # _ \<Rightarrow> Inl e
      | Inr first # rest \<Rightarrow> Inr (StreamedBody (pump_request_body first rest ch)))"

section \<open>Lemmas on polls and frames\<close>

text \<open>The polls since the last item, the earliest first: \<open>waiting_since\<close> holds when the stream has
  been waiting, with its deadline set at the first of them.\<close>

definition waiting_since :: "idle_timeout \<Rightarrow> (instant \<times> chunk_poll) list \<Rightarrow> bool" where
  "waiting_since this waits \<longleftrightarrow>
     \<not> it_expired this \<and> list_all (\<lambda>(t, p). p = Pending) waits \<and>
     (if waits = [] then \<not> it_waiting this
      else it_waiting this \<and> it_sleep this = fst (hd waits) + it_idle this)"

lemma idle_poll_cases:
  assumes "waiting_since this waits" and "idle_poll sleep this now inner = Inr (out, this', counted)"
  shows "it_idle this' = it_idle this \<and>
    ((\<not> counted \<and> out = inner \<and> waiting_since this' (if inner = Pending then waits @ [(now, Pending)] else [])) \<or>
     (counted \<and> inner = Pending \<and> out = Ready (Some (Inl TimedOut)) \<and> it_expired this' \<and>
      sleep (fst (hd (waits @ [(now, Pending)])) + it_idle this) now))"
  using assms
  by (cases inner; cases waits)
    (auto simp: idle_poll_def waiting_since_def add_instant_def split: if_splits sum.splits)

lemma idle_run_expired:
  "it_expired this \<Longrightarrow> idle_run sleep this ps = Inr (map (\<lambda>(t, _). (t, Ready None)) ps, this, 0)"
  by (induction ps) (auto simp: idle_poll_def)

text \<open>The shape of a run that ends by the idle timeout.\<close>

definition idle_cut ::
  "timer \<Rightarrow> duration \<Rightarrow> (instant \<times> chunk_poll) list \<Rightarrow> (instant \<times> chunk_poll) list \<Rightarrow>
   (instant \<times> chunk_poll) list \<Rightarrow> bool" where
  "idle_cut sleep idle waits ps outs \<longleftrightarrow>
     (\<exists>ps1 now ps2 before pending. ps = ps1 @ (now, Pending) # ps2 \<and>
        outs = ps1 @ (now, Ready (Some (Inl TimedOut))) # map (\<lambda>(t, _). (t, Ready None)) ps2 \<and>
        waits @ ps1 @ [(now, Pending)] = before @ pending \<and> pending \<noteq> [] \<and>
        list_all (\<lambda>(t, p). p = Pending) pending \<and> sleep (fst (hd pending) + idle) now)"

lemma idle_cut_here:
  assumes "list_all (\<lambda>(t, p). p = Pending) waits" and "sleep (fst (hd (waits @ [(now, Pending)])) + idle) now"
  shows "idle_cut sleep idle waits ((now, Pending) # ps)
    ((now, Ready (Some (Inl TimedOut))) # map (\<lambda>(t, _). (t, Ready None)) ps)"
  unfolding idle_cut_def using assms
  by (intro exI [of _ "[]"] exI [of _ now] exI [of _ ps] exI [of _ "waits @ [(now, Pending)]"]) simp

lemma idle_cut_later:
  assumes "idle_cut sleep idle (if inner = Pending then waits @ [(now, Pending)] else []) ps outs"
  shows "idle_cut sleep idle waits ((now, inner) # ps) ((now, inner) # outs)"
proof -
  obtain ps1 now' ps2 before pending where cut: "ps = ps1 @ (now', Pending) # ps2"
    "outs = ps1 @ (now', Ready (Some (Inl TimedOut))) # map (\<lambda>(t, _). (t, Ready None)) ps2"
    "(if inner = Pending then waits @ [(now, Pending)] else []) @ ps1 @ [(now', Pending)] = before @ pending"
    "pending \<noteq> []" "list_all (\<lambda>(t, p). p = Pending) pending" "sleep (fst (hd pending) + idle) now'"
    using assms unfolding idle_cut_def by auto
  obtain before' where "waits @ ((now, inner) # ps1) @ [(now', Pending)] = before' @ pending"
    using cut(3) by (cases "inner = Pending") (auto intro: exI [of _ "waits @ (now, inner) # before"])
  with cut(1,2,4-6) show ?thesis
    unfolding idle_cut_def
    by (intro exI [of _ "(now, inner) # ps1"] exI [of _ now'] exI [of _ ps2] exI [of _ before'] exI [of _ pending]) simp
qed

lemma idle_run_shape:
  assumes "waiting_since this waits" and "idle_run sleep this ps = Inr (outs, this', n)"
  shows "n = 0 \<and> outs = ps \<or> n = 1 \<and> idle_cut sleep (it_idle this) waits ps outs"
  using assms
proof (induction ps arbitrary: this waits outs n)
  case Nil
  then show ?case by simp
next
  case (Cons p ps)
  obtain now inner where p: "p = (now, inner)" by (cases p)
  from Cons.prems(2) obtain out this1 counted outs1 n1
    where poll: "idle_poll sleep this now inner = Inr (out, this1, counted)"
      and run: "idle_run sleep this1 ps = Inr (outs1, this', n1)"
      and outs: "outs = (now, out) # outs1" and n: "n = (if counted then Suc n1 else n1)"
    by (auto simp: p split: sum.splits prod.splits)
  note step = idle_poll_cases [OF Cons.prems(1) poll]
  show ?case
  proof (cases counted)
    case True
    then have c: "inner = Pending" "out = Ready (Some (Inl TimedOut))" "it_expired this1"
      "sleep (fst (hd (waits @ [(now, Pending)])) + it_idle this) now" using step by auto
    have "outs1 = map (\<lambda>(t, _). (t, Ready None)) ps" "n1 = 0"
      using run idle_run_expired [OF c(3)] by auto
    moreover have "list_all (\<lambda>(t, p). p = Pending) waits"
      using Cons.prems(1) by (simp add: waiting_since_def)
    ultimately show ?thesis using idle_cut_here [of waits sleep now "it_idle this" ps] True n c p outs by simp
  next
    case False
    then have w: "waiting_since this1 (if inner = Pending then waits @ [(now, Pending)] else [])"
      and out: "out = inner" and i: "it_idle this1 = it_idle this" using step by auto
    show ?thesis
      using Cons.IH [OF w run] idle_cut_later [of sleep "it_idle this" inner waits now ps outs1] i n False outs out p
      by auto
  qed
qed

lemma pump_loop_open: "pump_loop (map Inr ss) None = map Inr ss"
  by (induction ss) auto

lemma pump_loop_error: "pump_loop (map Inr ss @ Inl e # rest) None = map Inr ss @ [Inl e]"
  by (induction ss) auto

lemma pump_loop_closed: "pump_loop payload (Some n) = take n (pump_loop payload None)"
proof (induction payload arbitrary: n)
  case (Cons chunk payload)
  then show ?case by (cases n; cases chunk) auto
qed simp

section \<open>Properties\<close>

text \<open>
  C23. The tee is transparent and settles its copy exactly once: the client sees the polls of the
  origin's body unchanged, and over the life of the response the copy is either finished or
  given up, once. A body that is finished, and so stored, is exactly what the origin had sent
  by then, without an error, within the limit, and whole: as long as the origin declared, or
  ended by the origin when it declared no length.\<close>

theorem tee_settles_once:
  "fst (tee_life len (Some \<lparr>bc_buffer = [], bc_limit = limit\<rparr>) ps) = ps \<and>
   (\<exists>e. snd (tee_life len (Some \<lparr>bc_buffer = [], bc_limit = limit\<rparr>) ps) = [e] \<and>
      (e = GivenUp \<or> (\<exists>ps1 ps2. ps = ps1 @ ps2 \<and> e = Finished (body_bytes ps1) \<and>
         \<not> list_ex fails ps1 \<and> length (body_bytes ps1) \<le> limit \<and>
         (len = Some (length (body_bytes ps1)) \<or> len = None \<and> ps1 \<noteq> [] \<and> last ps1 = Ready None))))"
proof (cases "len = Some 0")
  case True
  have new: "tee_new len (Some \<lparr>bc_buffer = [], bc_limit = limit\<rparr>) =
      (Some (Finished []), \<lparr>te_length = len, te_copy = None\<rparr>)"
    using True by (simp add: tee_new_def tee_finish_def)
  show ?thesis
    unfolding tee_life_eq new
    using tee_run_no_copy [of "\<lparr>te_length = len, te_copy = None\<rparr>" ps] True
    by (simp add: tee_run_transparent tee_give_up_def) (rule exI [of _ "[]"], simp)
next
  case False
  let ?c = "\<lparr>bc_buffer = [], bc_limit = limit\<rparr>" and ?t = "\<lparr>te_length = len, te_copy = Some \<lparr>bc_buffer = [], bc_limit = limit\<rparr>\<rparr>"
  have new: "tee_new len (Some ?c) = (None, ?t)" using False by (simp add: tee_new_def)
  let ?evs = "fst (snd (tee_run ?t ps)) @ events (fst (tee_give_up (snd (snd (tee_run ?t ps)))))"
  have single: "length xs = 1 \<Longrightarrow> \<exists>e. xs = [e]" for xs :: "copy_event list" by (cases xs) auto
  have "length ?evs = 1" by (rule tee_run_one_event) simp
  from single [OF this] obtain e where e: "?evs = [e]" by (elim exE)
  have "e = GivenUp \<or> (\<exists>body. e = Finished body \<and> Finished body \<in> set (fst (snd (tee_run ?t ps))))"
    using e by (cases e; cases "fst (snd (tee_run ?t ps))")
      (auto simp: tee_give_up_def split: option.splits)
  then show ?thesis
    unfolding tee_life_eq new
    using e tee_run_finished [of ?t ?c _ ps] by (auto simp: tee_run_transparent)
qed

text \<open>
  C24. Every body that may be stored is: a body of the declared length, or one that ends without a
  declared length, that fits the limit and arrives without an error is finished, and finished
  with all its bytes, whatever its division into chunks.\<close>

theorem tee_finishes_whole_body:
  assumes "length (concat ss) \<le> limit"
  shows "snd (tee_life None (Some \<lparr>bc_buffer = [], bc_limit = limit\<rparr>) (chunks ss @ [Ready None])) =
      [Finished (concat ss)] \<and>
    snd (tee_life (Some (length (concat ss))) (Some \<lparr>bc_buffer = [], bc_limit = limit\<rparr>) (chunks ss)) =
      [Finished (concat ss)]"
proof -
  let ?c = "\<lparr>bc_buffer = [], bc_limit = limit\<rparr>"
  have "snd (tee_life None (Some ?c) (chunks ss @ [Ready None])) = [Finished (concat ss)]"
    using assms tee_run_unsized [of "\<lparr>te_length = None, te_copy = Some ?c\<rparr>" ?c ss]
    by (intro tee_life_run) simp_all
  moreover have "snd (tee_life (Some (length (concat ss))) (Some ?c) (chunks ss)) = [Finished (concat ss)]"
  proof (cases "concat ss = []")
    case True
    then show ?thesis
      using tee_run_no_copy [of "\<lparr>te_length = Some 0, te_copy = None\<rparr>" "chunks ss"]
      by (simp add: tee_life_eq tee_new_def tee_finish_def tee_give_up_def del: concat_eq_Nil_conv)
  next
    case False
    then show ?thesis
      using assms tee_run_sized [of "\<lparr>te_length = Some (length (concat ss)), te_copy = Some ?c\<rparr>" ?c ss]
      by (intro tee_life_run) simp_all
  qed
  ultimately show ?thesis by blast
qed

theorem tee_finishes_whole_body_witness:
  "snd (tee_life (Some 5) (Some \<lparr>bc_buffer = [], bc_limit = 8\<rparr>) (chunks [''he'', ''llo''])) = [Finished ''hello'']"
  using tee_finishes_whole_body [of "[''he'', ''llo'']" 8] by (simp add: eval_nat_numeral)


definition exact_timer :: timer where
  "exact_timer deadline now \<longleftrightarrow> deadline \<le> now"

lemma exact_timer_documented: "timer_documented exact_timer"
  by (simp add: timer_documented_def exact_timer_def)

definition stalled_polls :: "(instant \<times> chunk_poll) list" where
  "stalled_polls = [(5, Ready (Some (Inr ''a''))), (20, Pending), (31, Pending)]"

lemma stalled_run:
  "idle_run exact_timer (origin_body 10 0) stalled_polls =
     Inr ([(5, Ready (Some (Inr ''a''))), (20, Pending), (31, Ready (Some (Inl TimedOut)))],
          \<lparr>it_idle = 10, it_sleep = 30, it_waiting = True, it_expired = True\<rparr>, 1)"
  by (simp add: stalled_polls_def idle_poll_def origin_body_def add_instant_def instant_limit_def
      nanos_per_sec_def exact_timer_def)


text \<open>
  C29. A request body is never cut short unnoticed: with the channel open, the frames the origin
  request gets are the payload's chunks, ending with the error when the payload fails; a closed
  channel only cuts the frames short from the end. A payload that fails at once is refused, and
  an empty one gives an empty body.\<close>

theorem request_body_faithful:
  "request_body [] ch = Inr EmptyBody \<and> request_body (Inl e # rest) ch = Inl e \<and>
   request_body (map Inr (s # ss)) None = Inr (StreamedBody (map Inr (s # ss))) \<and>
   request_body (map Inr (s # ss) @ Inl e # rest) None = Inr (StreamedBody (map Inr (s # ss) @ [Inl e])) \<and>
   request_body (Inr s # rest) (Some n) =
     Inr (StreamedBody (take n (pump_request_body s rest None)))"
  by (cases n)
    (simp_all add: request_body_def pump_request_body_def pump_loop_open pump_loop_error pump_loop_closed)


end
