(* ===== verification/Metrics.thy ===== *)
theory Metrics
  imports Store
begin

text \<open>
  The Prometheus metrics of \<^verbatim>\<open>src/src/metrics.rs\<close>. The \<open>prometheus\<close> crate is third-party code:
  the state of a counter vector is the log of the calls made on it, newest first, and what the
  crate answers is given by the functions of the record \<open>prom_lib\<close>. \<open>prom_documented\<close> is the
  behaviour its documentation promises: \<open>get\<close> returns the number of increments of the series,
  at the width of the counter, a definition with well-formed names is valid, and a name not yet in the registry can be
  registered.
\<close>

section \<open>Labels\<close>

definition HIT :: string where "HIT = ''HIT''"
definition MISS :: string where "MISS = ''MISS''"
definition REVALIDATED :: string where "REVALIDATED = ''REVALIDATED''"
definition STALE :: string where "STALE = ''STALE''"
definition COALESCED :: string where "COALESCED = ''COALESCED''"
definition BYPASS :: string where "BYPASS = ''BYPASS''"

lemmas label_defs = HIT_def MISS_def REVALIDATED_def STALE_def COALESCED_def BYPASS_def

definition CACHE_LABELS :: "string list" where
  "CACHE_LABELS = [HIT, MISS, REVALIDATED, STALE, COALESCED, BYPASS]"

definition ASSET_CACHE_LABELS :: "string list" where
  "ASSET_CACHE_LABELS = [HIT, MISS, BYPASS]"

definition STATUS_CLASSES :: "string list" where
  "STATUS_CLASSES = [''1xx'', ''2xx'', ''3xx'', ''4xx'', ''5xx'']"

datatype route = ProxyRoute | AssetRoute

fun route_label :: "route \<Rightarrow> string" where
  "route_label ProxyRoute = ''proxy''"
| "route_label AssetRoute = ''asset''"

datatype origin_kind = Foreground | Background

fun kind_label :: "origin_kind \<Rightarrow> string" where
  "kind_label Foreground = ''foreground''"
| "kind_label Background = ''background''"

datatype origin_failure = OriginError | OriginTimeout

definition status_class :: "nat \<Rightarrow> string" where
  "status_class status =
     (if status div 100 = 1 then ''1xx'' else if status div 100 = 2 then ''2xx''
      else if status div 100 = 3 then ''3xx'' else if status div 100 = 4 then ''4xx''
      else if status div 100 = 5 then ''5xx'' else ''other'')"

definition cache_label :: "'b http_response \<Rightarrow> string option" where
  "cache_label response =
     (case get (rs_headers response) ''x-shadowstep-cache'' of
        None \<Rightarrow> None
      | Some v \<Rightarrow> find (\<lambda>label. v = label) CACHE_LABELS)"

definition gauge_value :: "nat \<Rightarrow> nat" where
  "gauge_value v = saturate_i64 v"

section \<open>The prometheus crate\<close>

datatype vec_call = WithLabels "string list" | Inc "string list"

text \<open>What a constructor of the crate is given; the bucket bounds of a histogram are in thousandths of a
  second.\<close>

record metric_desc =
  md_name :: string
  md_help :: string
  md_labels :: "string list"
  md_buckets :: "nat list option"

record prom_lib =
  vec_value :: "vec_call list \<Rightarrow> string list \<Rightarrow> 64 word" \<comment> \<open>\<open>with_label_values(l).get()\<close>\<close>
  counter_value :: "nat \<Rightarrow> 64 word" \<comment> \<open>\<open>IntCounter::get\<close> after so many \<open>inc\<close>\<close>
  valid_desc :: "metric_desc \<Rightarrow> bool" \<comment> \<open>whether the constructors accept the definition\<close>
  register_ok :: "string list \<Rightarrow> metric_desc \<Rightarrow> bool" \<comment> \<open>whether \<open>Registry::register\<close> succeeds\<close>

definition metric_name_char :: "char \<Rightarrow> bool" where
  "metric_name_char c \<longleftrightarrow> (97 \<le> code c \<and> code c \<le> 122) \<or> c = CHR ''_''"

definition prom_documented :: "prom_lib \<Rightarrow> bool" where
  "prom_documented P \<longleftrightarrow>
     (\<forall>calls l. vec_value P calls l = of_nat (length (filter (\<lambda>c. c = Inc l) calls))) \<and>
     (\<forall>n. counter_value P n = of_nat n) \<and>
     (\<forall>d. md_name d \<noteq> [] \<longrightarrow> list_all metric_name_char (md_name d) \<longrightarrow> md_help d \<noteq> [] \<longrightarrow>
        list_all (\<lambda>l. l \<noteq> [] \<and> list_all metric_name_char l) (md_labels d) \<longrightarrow> distinct (md_labels d) \<longrightarrow>
        (\<forall>buckets. md_buckets d = Some buckets \<longrightarrow> buckets \<noteq> [] \<and> sorted_wrt (<) buckets) \<longrightarrow> valid_desc P d) \<and>
     (\<forall>names d. md_name d \<notin> set names \<longrightarrow> register_ok P names d)"

text \<open>The series a counter vector exports: those that a call has named.\<close>

fun call_labels :: "vec_call \<Rightarrow> string list" where
  "call_labels (WithLabels l) = l"
| "call_labels (Inc l) = l"

definition vec_series :: "vec_call list \<Rightarrow> string list set" where
  "vec_series calls = call_labels ` set calls"

section \<open>Metrics\<close>

datatype register_panic = InvalidDefinition | DuplicateName

record metrics =
  m_registry :: "string list"
  m_requests :: "vec_call list"
  m_responses :: "vec_call list"
  m_origin_requests :: "vec_call list"
  m_origin_seconds :: "duration list" \<comment> \<open>the observations of the histogram, newest first\<close>
  m_idle_timeouts :: "vec_call list"
  m_revalidations :: nat
  m_background_refreshes :: nat
  m_cache_bytes :: nat
  m_cache_entries :: nat

definition register :: "prom_lib \<Rightarrow> metric_desc \<Rightarrow> string list \<Rightarrow> register_panic + string list" where
  "register P d registry =
     (if \<not> valid_desc P d then Inl InvalidDefinition
      else if \<not> register_ok P registry d then Inl DuplicateName
      else Inr (registry @ [md_name d]))"

fun register_all :: "prom_lib \<Rightarrow> metric_desc list \<Rightarrow> string list \<Rightarrow> register_panic + string list" where
  "register_all P [] registry = Inr registry"
| "register_all P (d # ds) registry =
     (case register P d registry of Inl e \<Rightarrow> Inl e | Inr registry' \<Rightarrow> register_all P ds registry')"

definition REQUESTS_HELP :: string where
  "REQUESTS_HELP = ''Proxied and asset requests, by route and X-Shadowstep-Cache value, or '' @
     ''BYPASS for requests the cache could neither answer nor store.''"

definition RESPONSES_HELP :: string where
  "RESPONSES_HELP = ''Responses to proxied and asset requests, by route and status class.''"

definition ORIGIN_REQUESTS_HELP :: string where
  "ORIGIN_REQUESTS_HELP = ''Requests to the origin, by kind and by the status class of the '' @
     ''response, or error or timeout when no response headers arrived.''"

definition ORIGIN_RESPONSE_SECONDS_HELP :: string where
  "ORIGIN_RESPONSE_SECONDS_HELP = ''Time from sending an origin request to receiving its response headers.''"

definition BODY_IDLE_HELP :: string where
  "BODY_IDLE_HELP = ''Origin response bodies given up after the origin sent nothing for the '' @
     ''upstream timeout.''"

definition REVALIDATIONS_HELP :: string where
  "REVALIDATIONS_HELP = ''304 responses from the origin that freshened a stored response, in '' @
     ''the foreground or the background.''"

definition BACKGROUND_REFRESHES_HELP :: string where
  "BACKGROUND_REFRESHES_HELP = ''Background revalidations started under stale-while-revalidate.''"

definition CACHE_BYTES_HELP :: string where
  "CACHE_BYTES_HELP = ''Bytes held in the cache, for origin responses and assets.''"

definition CACHE_ENTRIES_HELP :: string where
  "CACHE_ENTRIES_HELP = ''Entries in the cache, for origin responses and assets.''"

definition ORIGIN_BUCKETS :: "nat list" where
  "ORIGIN_BUCKETS = [5, 10, 25, 50, 100, 250, 500, 1000, 2500, 5000, 10000, 30000]"

definition counter_vec :: "string \<Rightarrow> string \<Rightarrow> string list \<Rightarrow> metric_desc" where
  "counter_vec name help labels =
     \<lparr>md_name = name, md_help = help, md_labels = labels, md_buckets = None\<rparr>"

text \<open>\<open>IntCounter::new\<close>, \<open>IntGauge::new\<close> and \<open>HistogramOpts::new\<close> with its buckets.\<close>

definition plain_metric :: "string \<Rightarrow> string \<Rightarrow> metric_desc" where
  "plain_metric name help = \<lparr>md_name = name, md_help = help, md_labels = [], md_buckets = None\<rparr>"

definition histogram_opts :: "string \<Rightarrow> string \<Rightarrow> nat list \<Rightarrow> metric_desc" where
  "histogram_opts name help buckets =
     \<lparr>md_name = name, md_help = help, md_labels = [], md_buckets = Some buckets\<rparr>"

definition METRIC_DESCS :: "metric_desc list" where
  "METRIC_DESCS =
     [counter_vec ''shadowstep_requests_total'' REQUESTS_HELP [''route'', ''cache''],
      counter_vec ''shadowstep_responses_total'' RESPONSES_HELP [''route'', ''status_class''],
      counter_vec ''shadowstep_origin_requests_total'' ORIGIN_REQUESTS_HELP [''kind'', ''outcome''],
      histogram_opts ''shadowstep_origin_response_seconds'' ORIGIN_RESPONSE_SECONDS_HELP ORIGIN_BUCKETS,
      counter_vec ''shadowstep_origin_body_idle_timeouts_total'' BODY_IDLE_HELP [''kind''],
      plain_metric ''shadowstep_cache_revalidations_total'' REVALIDATIONS_HELP,
      plain_metric ''shadowstep_cache_background_refreshes_total'' BACKGROUND_REFRESHES_HELP,
      plain_metric ''shadowstep_cache_bytes'' CACHE_BYTES_HELP,
      plain_metric ''shadowstep_cache_entries'' CACHE_ENTRIES_HELP]"

lemmas metric_desc_defs = counter_vec_def plain_metric_def histogram_opts_def

lemma help_texts [simp]:
  "REQUESTS_HELP \<noteq> []" "RESPONSES_HELP \<noteq> []" "ORIGIN_REQUESTS_HELP \<noteq> []" "ORIGIN_RESPONSE_SECONDS_HELP \<noteq> []"
  "BODY_IDLE_HELP \<noteq> []" "REVALIDATIONS_HELP \<noteq> []" "BACKGROUND_REFRESHES_HELP \<noteq> []" "CACHE_BYTES_HELP \<noteq> []"
  "CACHE_ENTRIES_HELP \<noteq> []"
  by (simp_all add: REQUESTS_HELP_def RESPONSES_HELP_def ORIGIN_REQUESTS_HELP_def ORIGIN_RESPONSE_SECONDS_HELP_def
      BODY_IDLE_HELP_def REVALIDATIONS_HELP_def BACKGROUND_REFRESHES_HELP_def CACHE_BYTES_HELP_def CACHE_ENTRIES_HELP_def)

definition with_labels :: "string list list \<Rightarrow> vec_call list \<Rightarrow> vec_call list" where
  "with_labels ls calls = fold (\<lambda>l cs. WithLabels l # cs) ls calls"

definition initialise_series :: "metrics \<Rightarrow> metrics" where
  "initialise_series m =
     m\<lparr>m_requests := with_labels (map (\<lambda>c. [''asset'', c]) ASSET_CACHE_LABELS)
          (with_labels (map (\<lambda>c. [''proxy'', c]) CACHE_LABELS) (m_requests m)),
       m_origin_requests := with_labels
          (concat (map (\<lambda>kind. map (\<lambda>outcome. [kind_label kind, outcome])
             (STATUS_CLASSES @ [''error'', ''timeout''])) [Foreground, Background])) (m_origin_requests m),
       m_idle_timeouts := with_labels (map (\<lambda>kind. [kind_label kind]) [Foreground, Background])
          (m_idle_timeouts m),
       m_responses := with_labels
          (concat (map (\<lambda>r. map (\<lambda>c. [route_label r, c]) STATUS_CLASSES) [ProxyRoute, AssetRoute]))
          (m_responses m)\<rparr>"

definition metrics_new :: "prom_lib \<Rightarrow> register_panic + metrics" where
  "metrics_new P =
     (case register_all P METRIC_DESCS [] of
        Inl e \<Rightarrow> Inl e
      | Inr registry \<Rightarrow> Inr (initialise_series
          \<lparr>m_registry = registry, m_requests = [], m_responses = [], m_origin_requests = [],
           m_origin_seconds = [], m_idle_timeouts = [], m_revalidations = 0,
           m_background_refreshes = 0, m_cache_bytes = 0, m_cache_entries = 0\<rparr>))"

definition vec_inc :: "string list \<Rightarrow> vec_call list \<Rightarrow> vec_call list" where
  "vec_inc l calls = Inc l # WithLabels l # calls"

definition observe :: "route \<Rightarrow> string \<Rightarrow> status_code \<Rightarrow> metrics \<Rightarrow> metrics" where
  "observe r cache status m =
     m\<lparr>m_requests := vec_inc [route_label r, cache] (m_requests m),
       m_responses := vec_inc [route_label r, status_class status] (m_responses m)\<rparr>"

definition origin_responded :: "origin_kind \<Rightarrow> status_code \<Rightarrow> duration \<Rightarrow> metrics \<Rightarrow> metrics" where
  "origin_responded kind status took m =
     m\<lparr>m_origin_requests := vec_inc [kind_label kind, status_class status] (m_origin_requests m),
       m_origin_seconds := took # m_origin_seconds m\<rparr>"

definition origin_failed :: "origin_kind \<Rightarrow> origin_failure \<Rightarrow> metrics \<Rightarrow> metrics" where
  "origin_failed kind failure m =
     (let outcome = (case failure of OriginError \<Rightarrow> ''error'' | OriginTimeout \<Rightarrow> ''timeout'')
      in m\<lparr>m_origin_requests := vec_inc [kind_label kind, outcome] (m_origin_requests m)\<rparr>)"

text \<open>\<open>body_idle_timeouts\<close> hands out the counter; a body that goes idle increments it.\<close>

definition body_idle_timeouts :: "origin_kind \<Rightarrow> metrics \<Rightarrow> metrics" where
  "body_idle_timeouts kind m = m\<lparr>m_idle_timeouts := WithLabels [kind_label kind] # m_idle_timeouts m\<rparr>"

definition idle_timeout_inc :: "origin_kind \<Rightarrow> metrics \<Rightarrow> metrics" where
  "idle_timeout_inc kind m = m\<lparr>m_idle_timeouts := Inc [kind_label kind] # m_idle_timeouts m\<rparr>"

definition revalidation :: "metrics \<Rightarrow> metrics" where
  "revalidation m = m\<lparr>m_revalidations := Suc (m_revalidations m)\<rparr>"

definition background_refresh :: "metrics \<Rightarrow> metrics" where
  "background_refresh m = m\<lparr>m_background_refreshes := Suc (m_background_refreshes m)\<rparr>"

definition requests_get :: "prom_lib \<Rightarrow> route \<Rightarrow> string \<Rightarrow> metrics \<Rightarrow> 64 word \<times> metrics" where
  "requests_get P r cache m =
     (let m' = m\<lparr>m_requests := WithLabels [route_label r, cache] # m_requests m\<rparr>
      in (vec_value P (m_requests m') [route_label r, cache], m'))"

definition both_routes :: "prom_lib \<Rightarrow> string \<Rightarrow> metrics \<Rightarrow> 64 word \<times> metrics" where
  "both_routes P cache m =
     (let (a, m1) = requests_get P ProxyRoute cache m; (b, m2) = requests_get P AssetRoute cache m1
      in (a + b, m2))"

record cache_counts =
  cc_hits :: "64 word"
  cc_misses :: "64 word"
  cc_revalidations :: "64 word"
  cc_stale :: "64 word"
  cc_coalesced :: "64 word"
  cc_background_refreshes :: "64 word"

definition cache_counts_of :: "prom_lib \<Rightarrow> metrics \<Rightarrow> cache_counts \<times> metrics" where
  "cache_counts_of P m =
     (let (h, m1) = both_routes P HIT m;
          (mi, m2) = both_routes P MISS m1;
          (b, m3) = requests_get P ProxyRoute BYPASS m2;
          (st, m4) = both_routes P STALE m3;
          (co, m5) = both_routes P COALESCED m4
      in (\<lparr>cc_hits = h, cc_misses = mi + b, cc_revalidations = counter_value P (m_revalidations m),
           cc_stale = st, cc_coalesced = co,
           cc_background_refreshes = counter_value P (m_background_refreshes m)\<rparr>, m5))"

text \<open>\<open>encode\<close> reads the store's gauges and prints the registry with the crate's \<open>TextEncoder\<close>,
  here the argument \<open>print\<close>; an encoder that fails leaves what it has written.\<close>

definition encode :: "(metrics \<Rightarrow> string) \<Rightarrow> moka \<Rightarrow> metrics \<Rightarrow> store \<Rightarrow> instant \<Rightarrow> string \<times> metrics \<times> store" where
  "encode print M m s now =
     (let (bytes, s1) = weighted_size M s now;
          (items, s2) = entry_count M s1 now;
          m' = m\<lparr>m_cache_bytes := gauge_value bytes, m_cache_entries := gauge_value items\<rparr>
      in (print m', m', s2))"

section \<open>Runs of the metrics\<close>

datatype metric_op =
    Observe route string status_code
  | OriginResponded origin_kind status_code duration
  | OriginFailed origin_kind origin_failure
  | BodyCounter origin_kind
  | BodyIdle origin_kind
  | Revalidation
  | BackgroundRefresh
  | ReadCounts

fun metric_step :: "prom_lib \<Rightarrow> metric_op \<Rightarrow> metrics \<Rightarrow> metrics" where
  "metric_step P (Observe r cache status) m = observe r cache status m"
| "metric_step P (OriginResponded kind status took) m = origin_responded kind status took m"
| "metric_step P (OriginFailed kind failure) m = origin_failed kind failure m"
| "metric_step P (BodyCounter kind) m = body_idle_timeouts kind m"
| "metric_step P (BodyIdle kind) m = idle_timeout_inc kind m"
| "metric_step P Revalidation m = revalidation m"
| "metric_step P BackgroundRefresh m = background_refresh m"
| "metric_step P ReadCounts m = snd (cache_counts_of P m)"

definition metric_run :: "prom_lib \<Rightarrow> metric_op list \<Rightarrow> metrics \<Rightarrow> metrics" where
  "metric_run P ops m = fold (metric_step P) ops m"

definition incs :: "string list \<Rightarrow> vec_call list \<Rightarrow> nat" where
  "incs l calls = length (filter (\<lambda>c. c = Inc l) calls)"

lemma incs_simps [simp]:
  "incs l [] = 0"
  "incs l (WithLabels l' # calls) = incs l calls"
  "incs l (Inc l' # calls) = (if l' = l then Suc (incs l calls) else incs l calls)"
  by (simp_all add: incs_def)

lemma incs_vec_inc [simp]:
  "incs l (vec_inc l' calls) = (if l' = l then Suc (incs l calls) else incs l calls)"
  by (simp add: vec_inc_def)

lemma incs_with_labels [simp]: "incs l (with_labels ls calls) = incs l calls"
proof -
  have "incs l (fold (\<lambda>l cs. WithLabels l # cs) ls calls) = incs l calls"
    by (induction ls arbitrary: calls) auto
  then show ?thesis by (simp add: with_labels_def)
qed

lemma vec_value_incs: "prom_documented P \<Longrightarrow> vec_value P calls l = of_nat (incs l calls)"
  by (simp add: prom_documented_def incs_def)

lemma route_label_inj [simp]: "route_label r = route_label r' \<longleftrightarrow> r = r'"
  by (cases r; cases r') auto

lemma requests_get_eq:
  "prom_documented P \<Longrightarrow> requests_get P r cache m =
     (of_nat (incs [route_label r, cache] (m_requests m)),
      m\<lparr>m_requests := WithLabels [route_label r, cache] # m_requests m\<rparr>)"
  by (simp add: requests_get_def Let_def vec_value_incs)

lemma cache_counts_reads:
  "incs l (m_requests (snd (cache_counts_of P m))) = incs l (m_requests m)"
  "m_responses (snd (cache_counts_of P m)) = m_responses m"
  "m_revalidations (snd (cache_counts_of P m)) = m_revalidations m"
  "m_background_refreshes (snd (cache_counts_of P m)) = m_background_refreshes m"
  by (simp_all add: cache_counts_of_def both_routes_def requests_get_def Let_def)

text \<open>How many of the operations observed a request with a route and a cache label.\<close>

fun observed :: "route \<Rightarrow> string \<Rightarrow> metric_op \<Rightarrow> bool" where
  "observed r cache (Observe r' cache' status) \<longleftrightarrow> r' = r \<and> cache' = cache"
| "observed r cache _ \<longleftrightarrow> False"

definition observations :: "metric_op list \<Rightarrow> route \<Rightarrow> string \<Rightarrow> nat" where
  "observations ops r cache = length (filter (observed r cache) ops)"

lemma incs_requests_step:
  "incs [route_label r, cache] (m_requests (metric_step P op m)) =
     (if observed r cache op then Suc else id) (incs [route_label r, cache] (m_requests m))"
  by (cases op)
    (auto simp: observe_def origin_responded_def origin_failed_def body_idle_timeouts_def
      idle_timeout_inc_def revalidation_def background_refresh_def cache_counts_reads Let_def)

lemma incs_requests_run:
  "incs [route_label r, cache] (m_requests (metric_run P ops m)) =
     incs [route_label r, cache] (m_requests m) + observations ops r cache"
  by (induction ops arbitrary: m)
    (auto simp: metric_run_def observations_def incs_requests_step)

lemma counters_run:
  "m_revalidations (metric_run P ops m) = m_revalidations m + length (filter (\<lambda>op. op = Revalidation) ops)"
  "m_background_refreshes (metric_run P ops m) =
     m_background_refreshes m + length (filter (\<lambda>op. op = BackgroundRefresh) ops)"
proof -
  have step: "m_revalidations (metric_step P op m) =
      (if op = Revalidation then Suc else id) (m_revalidations m)"
    "m_background_refreshes (metric_step P op m) =
      (if op = BackgroundRefresh then Suc else id) (m_background_refreshes m)" for op m
    by (cases op; simp add: observe_def origin_responded_def origin_failed_def body_idle_timeouts_def
        idle_timeout_inc_def revalidation_def background_refresh_def cache_counts_reads Let_def)+
  show "m_revalidations (metric_run P ops m) = m_revalidations m + length (filter (\<lambda>op. op = Revalidation) ops)"
    "m_background_refreshes (metric_run P ops m) =
      m_background_refreshes m + length (filter (\<lambda>op. op = BackgroundRefresh) ops)"
    by (induction ops arbitrary: m) (auto simp: metric_run_def step)
qed

lemma cache_counts_incs:
  assumes "prom_documented P"
  shows "fst (cache_counts_of P m) =
    \<lparr>cc_hits = of_nat (incs [''proxy'', HIT] (m_requests m) + incs [''asset'', HIT] (m_requests m)),
     cc_misses = of_nat (incs [''proxy'', MISS] (m_requests m) + incs [''asset'', MISS] (m_requests m) +
       incs [''proxy'', BYPASS] (m_requests m)),
     cc_revalidations = of_nat (m_revalidations m),
     cc_stale = of_nat (incs [''proxy'', STALE] (m_requests m) + incs [''asset'', STALE] (m_requests m)),
     cc_coalesced = of_nat (incs [''proxy'', COALESCED] (m_requests m) + incs [''asset'', COALESCED] (m_requests m)),
     cc_background_refreshes = of_nat (m_background_refreshes m)\<rparr>"
  using assms
  by (simp add: cache_counts_of_def both_routes_def requests_get_eq Let_def)
    (simp add: prom_documented_def)

text \<open>A concrete instance of the crate.\<close>

definition prom_example :: prom_lib where
  "prom_example =
     \<lparr>vec_value = (\<lambda>calls l. of_nat (incs l calls)), counter_value = of_nat, valid_desc = (\<lambda>d. True),
      register_ok = (\<lambda>names d. md_name d \<notin> set names)\<rparr>"

lemma prom_example_documented: "prom_documented prom_example"
  by (simp add: prom_documented_def prom_example_def incs_def)

lemma metrics_new_Inr:
  assumes "prom_documented P"
  shows "\<exists>m. metrics_new P = Inr m \<and> m_registry m = map md_name METRIC_DESCS \<and>
    m_revalidations m = 0 \<and> m_background_refreshes m = 0 \<and> (\<forall>l. incs l (m_requests m) = 0)"
proof -
  have "list_all (valid_desc P) METRIC_DESCS"
    using assms by (auto simp: prom_documented_def METRIC_DESCS_def metric_desc_defs metric_name_char_def ORIGIN_BUCKETS_def)
  then have "register_all P METRIC_DESCS [] = Inr (map md_name METRIC_DESCS)"
    using assms by (simp add: METRIC_DESCS_def metric_desc_defs register_def prom_documented_def)
  then show ?thesis by (simp add: metrics_new_def initialise_series_def)
qed

lemma metrics_new_series:
  "metrics_new P = Inr m \<Longrightarrow> vec_series (m_requests m) =
     (\<lambda>c. [''proxy'', c]) ` set CACHE_LABELS \<union> (\<lambda>c. [''asset'', c]) ` set ASSET_CACHE_LABELS"
  by (auto simp: metrics_new_def initialise_series_def vec_series_def with_labels_def
      CACHE_LABELS_def ASSET_CACHE_LABELS_def split: sum.splits)

section \<open>Properties\<close>

text \<open>
  The counters are well defined: \<open>Metrics::new\<close> never panics, it registers nine different
  names, and every expected series starts at 0.\<close>

theorem metrics_new_total:
  assumes "prom_documented P"
  shows "\<exists>m. metrics_new P = Inr m \<and> m_registry m = map md_name METRIC_DESCS \<and> distinct (m_registry m) \<and>
    vec_series (m_requests m) =
      (\<lambda>c. [''proxy'', c]) ` set CACHE_LABELS \<union> (\<lambda>c. [''asset'', c]) ` set ASSET_CACHE_LABELS \<and>
    vec_value P (m_requests m) l = 0"
proof -
  obtain m where m: "metrics_new P = Inr m" "m_registry m = map md_name METRIC_DESCS"
    "\<And>l. incs l (m_requests m) = 0"
    using metrics_new_Inr [OF assms] by blast
  have "distinct (map md_name METRIC_DESCS)" by (simp add: METRIC_DESCS_def metric_desc_defs)
  then show ?thesis using m vec_value_incs [OF assms] metrics_new_series [OF m(1)] by simp
qed

theorem metrics_new_total_witness:
  "\<exists>m. metrics_new prom_example = Inr m \<and> m_registry m = map md_name METRIC_DESCS \<and> distinct (m_registry m) \<and>
    vec_series (m_requests m) =
      (\<lambda>c. [''proxy'', c]) ` set CACHE_LABELS \<union> (\<lambda>c. [''asset'', c]) ` set ASSET_CACHE_LABELS \<and>
    vec_value prom_example (m_requests m) [''proxy'', HIT] = 0"
  by (rule metrics_new_total [OF prom_example_documented])

text \<open>
  The counts of \<open>/health\<close> are the observed requests: after any sequence of operations on new
  metrics, hits, misses, stale and coalesced answers are the numbers of requests observed with
  these labels (a proxied bypass is a miss), and the revalidations and background refreshes are
  the numbers of those events, all at the counters' 64 bits.\<close>

theorem health_counts_observed:
  assumes "prom_documented P" and "metrics_new P = Inr m"
  shows "fst (cache_counts_of P (metric_run P ops m)) =
    \<lparr>cc_hits = of_nat (observations ops ProxyRoute HIT + observations ops AssetRoute HIT),
     cc_misses = of_nat (observations ops ProxyRoute MISS + observations ops AssetRoute MISS +
       observations ops ProxyRoute BYPASS),
     cc_revalidations = of_nat (length (filter (\<lambda>op. op = Revalidation) ops)),
     cc_stale = of_nat (observations ops ProxyRoute STALE + observations ops AssetRoute STALE),
     cc_coalesced = of_nat (observations ops ProxyRoute COALESCED + observations ops AssetRoute COALESCED),
     cc_background_refreshes = of_nat (length (filter (\<lambda>op. op = BackgroundRefresh) ops))\<rparr>"
proof -
  have zero: "incs l (m_requests m) = 0" "m_revalidations m = 0" "m_background_refreshes m = 0" for l
    using metrics_new_Inr [OF assms(1)] assms(2) by auto
  show ?thesis
    unfolding cache_counts_incs [OF assms(1)] counters_run
    using incs_requests_run [of ProxyRoute _ P ops m] incs_requests_run [of AssetRoute _ P ops m]
    by (simp add: zero)
qed

theorem health_counts_observed_witness:
  "cc_misses (fst (cache_counts_of prom_example
     (metric_run prom_example [Observe ProxyRoute BYPASS 200, Observe AssetRoute MISS 200,
        Observe AssetRoute BYPASS 404] (projr (metrics_new prom_example))))) = 2"
proof -
  have "metrics_new prom_example = Inr (projr (metrics_new prom_example))"
    using metrics_new_Inr [OF prom_example_documented] by auto
  from health_counts_observed [OF prom_example_documented this] show ?thesis
    by (simp add: observations_def label_defs)
qed

text \<open>
  Reading the counts changes what is exported: the \<open>/health\<close> handler's \<open>cache_counts\<close> calls
  \<open>with_label_values\<close> for the asset route's \<open>STALE\<close> and \<open>COALESCED\<close> labels, which creates two
  series that \<open>initialise_series\<close> leaves out and that no request can ever increment.\<close>

theorem health_creates_series:
  "\<exists>m. metrics_new prom_example = Inr m \<and> [''asset'', STALE] \<notin> vec_series (m_requests m) \<and>
    vec_series (m_requests (snd (cache_counts_of prom_example m))) =
      vec_series (m_requests m) \<union> {[''asset'', STALE], [''asset'', COALESCED]}"
proof -
  obtain m where m: "metrics_new prom_example = Inr m"
    using metrics_new_Inr [OF prom_example_documented] by blast
  note series = metrics_new_series [OF m]
  have "vec_series (m_requests (snd (cache_counts_of prom_example m))) =
      vec_series (m_requests m) \<union> {[''asset'', STALE], [''asset'', COALESCED]}"
    using series
    by (auto simp: cache_counts_of_def both_routes_def requests_get_def Let_def vec_series_def
        CACHE_LABELS_def ASSET_CACHE_LABELS_def)
  moreover have "[''asset'', STALE] \<notin> vec_series (m_requests m)"
    unfolding series by (simp add: CACHE_LABELS_def ASSET_CACHE_LABELS_def label_defs image_def)
  ultimately show ?thesis using m by blast
qed

end
