(* ===== verification/Proxy_Msg.thy ===== *)
theory Proxy_Msg
  imports Store Forwarded Body Metrics
begin

text \<open>
  The messages that the proxy builds, \<^verbatim>\<open>src/src/proxy.rs\<close>: which fields are forwarded, the
  request sent to the origin, the response stored, the response served from the cache. hyper,
  \<open>http\<close> 1 and \<open>url\<close> are third-party code: what the proxy asks of them are the functions of
  the records \<open>hyper_lib\<close> and \<open>origin_url\<close>.
\<close>

section \<open>Fields that are forwarded\<close>

definition connection_options :: "http_lib \<Rightarrow> header_value list \<Rightarrow> string list" where
  "connection_options L values =
     filter (\<lambda>token. token \<noteq> [])
       (map (\<lambda>token. to_ascii_lowercase (trim token))
          (concat (map (split_on comma) (List.map_filter (to_str L) values))))"

definition HOP_BY_HOP :: "header_name list" where
  "HOP_BY_HOP =
     [''connection'', ''keep-alive'', ''proxy-connection'', ''te'', ''trailer'', ''transfer-encoding'',
      ''upgrade'', ''proxy-authenticate'', ''proxy-authorization'']"

definition is_end_to_end :: "header_name \<Rightarrow> string list \<Rightarrow> bool" where
  "is_end_to_end name options \<longleftrightarrow>
     \<not> List.member HOP_BY_HOP name \<and> \<not> list_ex (\<lambda>option. option = name) options"

section \<open>The origin's response\<close>

text \<open>An origin response as hyper gives it, and its \<open>Head\<close> in actix types. The map of a \<open>Head\<close>
  is built by appending its fields in order, and is therefore the same list.\<close>

record upstream_response =
  ur_status :: nat
  ur_headers :: fields

record head =
  hd_status :: status_code
  hd_fields :: fields

record hyper_lib =
  status_from_u16 :: "nat \<Rightarrow> status_code option" \<comment> \<open>\<open>StatusCode::from_u16\<close> of actix\<close>
  field_from_bytes :: "header_name \<times> header_value \<Rightarrow> (header_name \<times> header_value) option"
    \<comment> \<open>\<open>HeaderName::from_bytes\<close> and \<open>HeaderValue::from_bytes\<close> of actix\<close>
  uri_try_from :: "string \<Rightarrow> bool" \<comment> \<open>whether \<open>Uri::try_from\<close> accepts the string\<close>
  method_try_from :: "string \<Rightarrow> bool" \<comment> \<open>whether hyper's builder accepts the method\<close>
  builder_field :: "string \<Rightarrow> string \<Rightarrow> (header_name \<times> header_value) option"
    \<comment> \<open>the field that hyper's builder makes of a name and a value\<close>
  limited_ok :: "nat \<Rightarrow> nat \<Rightarrow> bool" \<comment> \<open>whether \<open>Limited\<close> of a limit passes so many bytes\<close>

text \<open>Both versions of the \<open>http\<close> crate validate status codes, names and values by the same rules:
  what one accepted, the other accepts unchanged, up to the case of a name. A \<open>Limited\<close> body fails
  once more than its limit has been read.\<close>

definition hyper_documented :: "hyper_lib \<Rightarrow> bool" where
  "hyper_documented Y \<longleftrightarrow>
     (\<forall>s. 100 \<le> s \<and> s \<le> 999 \<longrightarrow> status_from_u16 Y s = Some s) \<and>
     (\<forall>n v n' v'. field_from_bytes Y (n, v) = Some (n', v') \<longrightarrow> n' = to_ascii_lowercase n \<and> v' = v) \<and>
     (\<forall>n v n' v'. builder_field Y n v = Some (n', v') \<longrightarrow> n' = to_ascii_lowercase n \<and> v' = v) \<and>
     (\<forall>limit total. limited_ok Y limit total \<longleftrightarrow> total \<le> limit)"

definition head_from_upstream :: "hyper_lib \<Rightarrow> upstream_response \<Rightarrow> head" where
  "head_from_upstream Y r =
     \<lparr>hd_status = (case status_from_u16 Y (ur_status r) of Some s \<Rightarrow> s | None \<Rightarrow> 502),
      hd_fields = List.map_filter (field_from_bytes Y) (ur_headers r)\<rparr>"

definition CACHE_STATUS :: header_name where
  "CACHE_STATUS = ''x-shadowstep-cache''"

definition forwardable_fields :: "http_lib \<Rightarrow> head \<Rightarrow> fields" where
  "forwardable_fields L h =
     (let options = connection_options L (get_all (hd_fields h) ''connection'')
      in filter (\<lambda>(name, _). name \<noteq> ''content-length'' \<and> name \<noteq> CACHE_STATUS \<and> is_end_to_end name options)
           (hd_fields h))"

definition stored_fields :: "fields \<Rightarrow> fields" where
  "stored_fields fs = filter (\<lambda>(name, _). name \<noteq> ''age'') fs"

definition content_length :: "http_lib \<Rightarrow> head \<Rightarrow> nat option" where
  "content_length L h =
     Option.bind (Option.bind (get (hd_fields h) ''content-length'') (to_str L)) parse_u64"

section \<open>Responses to the client\<close>

definition append_all :: "fields \<Rightarrow> fields \<Rightarrow> fields" where
  "append_all fs h = fold (\<lambda>(n, v) h. append_header h n v) fs h"

text \<open>\<open>cached_response\<close> panics when the age overflows.\<close>

definition cached_headers :: "stored_response \<Rightarrow> duration \<Rightarrow> string \<Rightarrow> fields" where
  "cached_headers stored age cache_status =
     insert_header (insert_header (append_all (sr_headers stored) []) ''age'' (to_decimal (as_secs age)))
       CACHE_STATUS cache_status"

definition miss_headers :: "fields \<Rightarrow> fields" where
  "miss_headers fs = insert_header (append_all fs []) CACHE_STATUS MISS"

definition error_text :: "http_lib \<Rightarrow> status_code \<Rightarrow> string" where
  "error_text L status =
     to_ascii_lowercase (case canonical_reason L status of Some r \<Rightarrow> r | None \<Rightarrow> [])"

section \<open>The request to the origin\<close>

record origin_url =
  ou_after_path :: string \<comment> \<open>\<open>url[..Position::AfterPath]\<close>\<close>
  ou_host_str :: "string option"
  ou_port :: "nat option" \<comment> \<open>\<open>port_or_known_default()\<close>\<close>

record request_parts =
  rp_method :: http_method
  rp_uri :: string
  rp_headers :: fields

text \<open>hyper's request builder keeps its first error and gives it when the body is set.\<close>

type_synonym request_builder = "request_parts option"

definition builder_new :: "hyper_lib \<Rightarrow> http_method \<Rightarrow> string \<Rightarrow> request_builder" where
  "builder_new Y method uri =
     (if method_try_from Y method then Some \<lparr>rp_method = method, rp_uri = uri, rp_headers = []\<rparr> else None)"

definition builder_header :: "hyper_lib \<Rightarrow> string \<Rightarrow> string \<Rightarrow> request_builder \<Rightarrow> request_builder" where
  "builder_header Y name value b =
     (case b of
        None \<Rightarrow> None
      | Some p \<Rightarrow>
          (case builder_field Y name value of
             None \<Rightarrow> None
           | Some (n, v) \<Rightarrow> Some (p\<lparr>rp_headers := append_header (rp_headers p) n v\<rparr>)))"

definition builder_headers :: "hyper_lib \<Rightarrow> fields \<Rightarrow> request_builder \<Rightarrow> request_builder" where
  "builder_headers Y fs b = fold (\<lambda>(n, v). builder_header Y n v) fs b"

definition trim_end_slashes :: "string \<Rightarrow> string" where
  "trim_end_slashes s = rev (dropWhile (\<lambda>c. c = CHR ''/'') (rev s))"

definition upstream_host :: "origin_url \<Rightarrow> string option" where
  "upstream_host base =
     (case ou_host_str base of
        None \<Rightarrow> None
      | Some host \<Rightarrow>
          Some (case ou_port base of
                  None \<Rightarrow> host
                | Some port \<Rightarrow> if port = 80 \<or> port = 443 then host else host @ '':'' @ to_decimal port))"

definition forwards_to_origin :: "string list \<Rightarrow> header_name \<Rightarrow> bool" where
  "forwards_to_origin options name \<longleftrightarrow>
     name \<noteq> ''host'' \<and> \<not> List.member CLIENT_FORWARDING_HEADERS name \<and>
     \<not> List.member URL_OVERRIDE_HEADERS name \<and> is_end_to_end name options"

definition upstream_request ::
  "http_lib \<Rightarrow> hyper_lib \<Rightarrow> origin_url \<Rightarrow> http_request \<Rightarrow> client_info \<Rightarrow> string \<Rightarrow>
   (request_builder \<times> string) option" where
  "upstream_request L Y base req client path_and_query =
     (let target_uri = trim_end_slashes (ou_after_path base) @ path_and_query
      in if \<not> uri_try_from Y target_uri then None
         else
           let options = connection_options L (get_all (rq_headers req) ''connection'');
               b1 = builder_headers Y (filter (\<lambda>(name, _). forwards_to_origin options name) (rq_headers req))
                      (builder_new Y (rq_method req) target_uri);
               b2 = (case upstream_host base of None \<Rightarrow> b1 | Some host \<Rightarrow> builder_header Y ''host'' host b1);
               b3 = (case ci_ip client of None \<Rightarrow> b2 | Some ip \<Rightarrow> builder_header Y ''X-Forwarded-For'' ip b2);
               b4 = builder_header Y ''X-Forwarded-Host'' (ci_host client)
                      (builder_header Y ''X-Forwarded-Proto'' (ci_scheme client) b3)
           in Some (b4, target_uri))"

definition with_validators :: "hyper_lib \<Rightarrow> request_builder \<Rightarrow> stored_response \<Rightarrow> request_builder" where
  "with_validators Y b stored = builder_headers Y (validators stored) b"

definition without_preconditions :: "request_builder \<Rightarrow> request_builder" where
  "without_preconditions b =
     map_option (\<lambda>p. p\<lparr>rp_headers := fold (\<lambda>n h. remove_header h n) PRECONDITION_HEADERS (rp_headers p)\<rparr>) b"

section \<open>Lemmas on fields\<close>

lemma append_all_eq [simp]: "append_all fs h = h @ fs"
  by (induction fs arbitrary: h) (auto simp: append_all_def append_header_def)

lemma get_all_forwardable:
  "get_all (forwardable_fields L h) n =
     (if n \<noteq> ''content-length'' \<and> n \<noteq> CACHE_STATUS \<and>
         is_end_to_end n (connection_options L (get_all (hd_fields h) ''connection''))
      then get_all (hd_fields h) n else [])"
  unfolding forwardable_fields_def Let_def by (rule get_all_filter)

lemma get_all_stored_fields: "get_all (stored_fields fs) n = (if n = ''age'' then [] else get_all fs n)"
  unfolding stored_fields_def by (simp add: get_all_filter)

text \<open>Names that are already in lower case, as actix keeps them.\<close>

definition lower_names :: "fields \<Rightarrow> bool" where
  "lower_names h \<longleftrightarrow> list_all (\<lambda>(n, _). to_ascii_lowercase n = n) h"

lemma builder_header_Some:
  assumes "hyper_documented Y" and "builder_header Y n v b = Some p"
  shows "\<exists>q. b = Some q \<and> p = q\<lparr>rp_headers := rp_headers q @ [(to_ascii_lowercase n, v)]\<rparr>"
proof -
  obtain q n' v' where q: "b = Some q" "builder_field Y n v = Some (n', v')"
    "p = q\<lparr>rp_headers := append_header (rp_headers q) n' v'\<rparr>"
    using assms(2) by (auto simp: builder_header_def split: option.splits)
  moreover have "n' = to_ascii_lowercase n" "v' = v"
    using assms(1) q(2) by (auto simp: hyper_documented_def)
  ultimately show ?thesis by (simp add: append_header_def)
qed

lemma builder_headers_Some:
  assumes "hyper_documented Y"
  shows "builder_headers Y fs b = Some p \<Longrightarrow>
    \<exists>q. b = Some q \<and> p = q\<lparr>rp_headers := rp_headers q @ map (\<lambda>(n, v). (to_ascii_lowercase n, v)) fs\<rparr>"
proof (induction fs arbitrary: b)
  case (Cons f fs)
  obtain n v where f: "f = (n, v)" by (cases f)
  from Cons.prems have "builder_headers Y fs (builder_header Y n v b) = Some p"
    by (simp add: builder_headers_def f)
  from Cons.IH [OF this] obtain q where q: "builder_header Y n v b = Some q"
    "p = q\<lparr>rp_headers := rp_headers q @ map (\<lambda>(n, v). (to_ascii_lowercase n, v)) fs\<rparr>" by blast
  from builder_header_Some [OF assms q(1)] q(2) f show ?case by auto
qed (simp add: builder_headers_def)

lemma map_lower_names:
  "lower_names h \<Longrightarrow> map (\<lambda>(n, v). (to_ascii_lowercase n, v)) (filter P h) = filter P h"
  unfolding lower_names_def by (induction h) auto

lemma forwarded_names:
  "to_ascii_lowercase ''X-Forwarded-For'' = ''x-forwarded-for''"
  "to_ascii_lowercase ''X-Forwarded-Proto'' = ''x-forwarded-proto''"
  "to_ascii_lowercase ''X-Forwarded-Host'' = ''x-forwarded-host''"
  "to_ascii_lowercase ''host'' = ''host''"
  by code_simp+

lemma upstream_request_headers:
  assumes "hyper_documented Y" and "lower_names (rq_headers req)"
    and "upstream_request L Y base req client pq = Some (Some p, uri)"
  shows "rp_headers p =
      filter (\<lambda>(name, _). forwards_to_origin (connection_options L (get_all (rq_headers req) ''connection'')) name)
        (rq_headers req) @
      (case upstream_host base of None \<Rightarrow> [] | Some host \<Rightarrow> [(''host'', host)]) @
      (case ci_ip client of None \<Rightarrow> [] | Some ip \<Rightarrow> [(''x-forwarded-for'', ip)]) @
      [(''x-forwarded-proto'', ci_scheme client), (''x-forwarded-host'', ci_host client)]"
    and "rp_method p = rq_method req" and "rp_uri p = uri" and "uri = trim_end_slashes (ou_after_path base) @ pq"
proof -
  let ?f = "filter (\<lambda>(name, _). forwards_to_origin (connection_options L (get_all (rq_headers req) ''connection'')) name)
        (rq_headers req)"
  let ?b0 = "builder_new Y (rq_method req) uri"
  have uri: "uri = trim_end_slashes (ou_after_path base) @ pq"
    using assms(3) by (auto simp: upstream_request_def Let_def split: if_splits)
  then show "uri = trim_end_slashes (ou_after_path base) @ pq" .
  define b1 where "b1 = builder_headers Y ?f ?b0"
  define b2 where "b2 = (case upstream_host base of None \<Rightarrow> b1 | Some host \<Rightarrow> builder_header Y ''host'' host b1)"
  define b3 where "b3 = (case ci_ip client of None \<Rightarrow> b2 | Some ip \<Rightarrow> builder_header Y ''X-Forwarded-For'' ip b2)"
  have "builder_header Y ''X-Forwarded-Host'' (ci_host client)
      (builder_header Y ''X-Forwarded-Proto'' (ci_scheme client) b3) = Some p"
    using assms(3) uri unfolding b3_def b2_def b1_def
    by (auto simp: upstream_request_def Let_def split: if_splits)
  from builder_header_Some [OF assms(1) this] obtain p4 where
    p4: "builder_header Y ''X-Forwarded-Proto'' (ci_scheme client) b3 = Some p4"
      "p = p4\<lparr>rp_headers := rp_headers p4 @ [(''x-forwarded-host'', ci_host client)]\<rparr>"
    by (auto simp: forwarded_names simp del: to_ascii_lowercase_simps)
  from builder_header_Some [OF assms(1) p4(1)] obtain p3 where
    p3: "b3 = Some p3" "p4 = p3\<lparr>rp_headers := rp_headers p3 @ [(''x-forwarded-proto'', ci_scheme client)]\<rparr>"
    by (auto simp: forwarded_names simp del: to_ascii_lowercase_simps)
  obtain p2 where p2: "b2 = Some p2"
      "p3 = p2\<lparr>rp_headers := rp_headers p2 @ (case ci_ip client of None \<Rightarrow> [] | Some ip \<Rightarrow> [(''x-forwarded-for'', ip)])\<rparr>"
    using p3(1) unfolding b3_def
    by (auto simp: forwarded_names simp del: to_ascii_lowercase_simps dest!: builder_header_Some [OF assms(1)] split: option.splits)
  obtain p1 where p1: "b1 = Some p1"
      "p2 = p1\<lparr>rp_headers := rp_headers p1 @ (case upstream_host base of None \<Rightarrow> [] | Some host \<Rightarrow> [(''host'', host)])\<rparr>"
    using p2(1) unfolding b2_def
    by (auto simp: forwarded_names simp del: to_ascii_lowercase_simps dest!: builder_header_Some [OF assms(1)] split: option.splits)
  obtain p0 where p0: "?b0 = Some p0" "p1 = p0\<lparr>rp_headers := rp_headers p0 @ ?f\<rparr>"
    using builder_headers_Some [OF assms(1) p1(1) [unfolded b1_def]] map_lower_names [OF assms(2)] by auto
  have "p0 = \<lparr>rp_method = rq_method req, rp_uri = uri, rp_headers = []\<rparr>"
    using p0(1) by (simp add: builder_new_def split: if_splits)
  note final = p4(2) p3(2) p2(2) p1(2) p0(2) this
  show "rp_headers p = ?f @
      (case upstream_host base of None \<Rightarrow> [] | Some host \<Rightarrow> [(''host'', host)]) @
      (case ci_ip client of None \<Rightarrow> [] | Some ip \<Rightarrow> [(''x-forwarded-for'', ip)]) @
      [(''x-forwarded-proto'', ci_scheme client), (''x-forwarded-host'', ci_host client)]"
    "rp_method p = rq_method req" "rp_uri p = uri"
    by (simp_all add: final)
qed

section \<open>A concrete instance\<close>

definition hyper_example :: hyper_lib where
  "hyper_example =
     \<lparr>status_from_u16 = (\<lambda>s. if 100 \<le> s \<and> s \<le> 999 then Some s else None),
      field_from_bytes = (\<lambda>(n, v). if n \<noteq> [] \<and> list_all token_char n then Some (to_ascii_lowercase n, v) else None),
      uri_try_from = list_all visible_ascii,
      method_try_from = (\<lambda>m. m \<noteq> [] \<and> list_all token_char m),
      builder_field = (\<lambda>n v. if n \<noteq> [] \<and> list_all token_char n then Some (to_ascii_lowercase n, v) else None),
      limited_ok = (\<lambda>limit total. total \<le> limit)\<rparr>"

lemma hyper_example_documented: "hyper_documented hyper_example"
  by (auto simp: hyper_documented_def hyper_example_def split: if_splits)

definition example_origin :: origin_url where
  "example_origin = \<lparr>ou_after_path = ''http://origin:3000/'', ou_host_str = Some ''origin'', ou_port = Some 3000\<rparr>"

definition example_upstream :: "http_request \<Rightarrow> request_parts" where
  "example_upstream req =
     the (fst (the (upstream_request http_example hyper_example example_origin req
       (client_info_from_request http_example req) ''/page'')))"

section \<open>Properties\<close>

text \<open>
  C22. What the origin is told: for every field name, the origin request has exactly the client's
  values, except that hop-by-hop fields, fields named by \<open>Connection\<close>, forwarding headers and
  URL override headers of the client are gone, \<open>Host\<close> is the origin's, and the
  \<open>X-Forwarded-For\<close>, \<open>-Proto\<close> and \<open>-Host\<close> fields are those of the connection, once each.\<close>

theorem upstream_request_fields:
  assumes "hyper_documented Y" and "lower_names (rq_headers req)"
    and "upstream_request L Y base req client pq = Some (Some p, uri)"
  shows "get_all (rp_headers p) n =
    (if n = ''host'' then (case upstream_host base of None \<Rightarrow> [] | Some host \<Rightarrow> [host])
     else if n = ''x-forwarded-for'' then (case ci_ip client of None \<Rightarrow> [] | Some ip \<Rightarrow> [ip])
     else if n = ''x-forwarded-proto'' then [ci_scheme client]
     else if n = ''x-forwarded-host'' then [ci_host client]
     else if List.member CLIENT_FORWARDING_HEADERS n \<or> List.member URL_OVERRIDE_HEADERS n \<or>
       \<not> is_end_to_end n (connection_options L (get_all (rq_headers req) ''connection'')) then []
     else get_all (rq_headers req) n)"
proof -
  have mem: "''x-forwarded-for'' \<in> set CLIENT_FORWARDING_HEADERS"
    "''x-forwarded-proto'' \<in> set CLIENT_FORWARDING_HEADERS"
    "''x-forwarded-host'' \<in> set CLIENT_FORWARDING_HEADERS" by (simp_all add: CLIENT_FORWARDING_HEADERS_def)
  have kept: "get_all (filter (\<lambda>(name, _). forwards_to_origin options name) h) n =
      (if forwards_to_origin options n then get_all h n else [])" for options h
    by (rule get_all_filter)
  have one: "get_all (case x of None \<Rightarrow> [] | Some v \<Rightarrow> [(m, v)]) n =
      (if n = m then (case x of None \<Rightarrow> [] | Some v \<Rightarrow> [v]) else [])" for x and m :: header_name
    by (simp split: option.split)
  have fields: "get_all (rp_headers p) n =
      (if forwards_to_origin (connection_options L (get_all (rq_headers req) ''connection'')) n
       then get_all (rq_headers req) n else []) @
      (if n = ''host'' then (case upstream_host base of None \<Rightarrow> [] | Some host \<Rightarrow> [host]) else []) @
      (if n = ''x-forwarded-for'' then (case ci_ip client of None \<Rightarrow> [] | Some ip \<Rightarrow> [ip]) else []) @
      (if n = ''x-forwarded-proto'' then [ci_scheme client] else []) @
      (if n = ''x-forwarded-host'' then [ci_host client] else [])"
    unfolding upstream_request_headers(1) [OF assms] get_all_simps(3) kept one by simp
  consider "n = ''host''" | "n = ''x-forwarded-for''" | "n = ''x-forwarded-proto''" | "n = ''x-forwarded-host''"
    | "n \<noteq> ''host''" "n \<noteq> ''x-forwarded-for''" "n \<noteq> ''x-forwarded-proto''" "n \<noteq> ''x-forwarded-host''"
    by blast
  then show ?thesis
    unfolding fields forwards_to_origin_def by cases (simp_all add: mem)
qed

theorem upstream_request_fields_witness:
  "get_all (rp_headers (example_upstream (example_request\<lparr>rq_headers := [(''connection'', ''X-Debug''), (''x-debug'', ''1''),
      (''x-forwarded-for'', ''10.0.0.1''), (''accept'', ''text/html'')]\<rparr>))) ''x-forwarded-for'' = [''192.0.2.1'']"
proof -
  let ?req = "example_request\<lparr>rq_headers := [(''connection'', ''X-Debug''), (''x-debug'', ''1''),
      (''x-forwarded-for'', ''10.0.0.1''), (''accept'', ''text/html'')]\<rparr>"
  have lower: "lower_names (rq_headers ?req)" by code_simp
  have ok: "upstream_request http_example hyper_example example_origin ?req
      (client_info_from_request http_example ?req) ''/page'' =
      Some (Some (example_upstream ?req), ''http://origin:3000/page'')" by code_simp
  have ip: "ci_ip (client_info_from_request http_example ?req) = Some ''192.0.2.1''"
    by (simp add: client_info_from_request_def example_request_def)
  show ?thesis
    unfolding upstream_request_fields [OF hyper_example_documented lower ok] ip by simp
qed


text \<open>
  C31. A response from the cache carries one \<open>Age\<close>, a decimal number of whole seconds that reads
  back as the age computed, one \<open>X-Shadowstep-Cache\<close> with the given label, and otherwise
  exactly the stored fields.\<close>

theorem cached_response_fields:
  assumes "age \<le> duration_max"
  shows "get_all (cached_headers stored age label) n =
      (if n = CACHE_STATUS then [label] else if n = ''age'' then [to_decimal (as_secs age)]
       else get_all (sr_headers stored) n) \<and>
    parse_u64 (to_decimal (as_secs age)) = Some (as_secs age)"
  using assms by (simp add: cached_headers_def parse_u64_to_decimal as_secs_le_max CACHE_STATUS_def)

theorem cached_response_fields_witness:
  "get_all (cached_headers (new_response (store_new 1 5) 0 default_storable 200 [(''age'', ''9'')] []) (from_secs 12) HIT) ''age'' =
     [to_decimal 12]"
  using cached_response_fields [of "from_secs 12" _ HIT "''age''"]
  by (simp add: CACHE_STATUS_def from_secs_def duration_max_def u64_max_def nanos_per_sec_def as_secs_def)


end
