(* ===== verification/Contracts.thy ===== *)
theory Contracts
  imports Main
begin

text \<open>
  The contracts between the components, as locales. \<open>claims\<close> is the contract of a guard that at
  most one holder has at a time: the background revalidation guard of the store and the
  flight guard of the request coalescer both provide it. \<open>variant_cache\<close> is the contract of
  the response store as the proxy sees it: a table of variants for each target URI. The
  clients' lemmas are proved here once, and the components interpret the locales.
\<close>

section \<open>Exclusive claims\<close>

datatype 'k claim_act = Claim 'k | Release 'k

locale claims =
  fixes held :: "'s \<Rightarrow> 'k set"
    and claim :: "'s \<Rightarrow> 'k \<Rightarrow> bool \<times> 's"
    and release :: "'s \<Rightarrow> 'k \<Rightarrow> 's"
  assumes granted: "fst (claim s k) \<longleftrightarrow> k \<notin> held s"
    and held_claim: "held (snd (claim s k)) = insert k (held s)"
    and held_release: "held (release s k) = held s - {k}"
begin

text \<open>Guards are handed out by granted claims, and only the owner of a guard releases it:
  \<open>act\<close> runs one action on the state and the list of guards in use.\<close>

fun act :: "'k claim_act \<Rightarrow> 's \<times> 'k list \<Rightarrow> 's \<times> 'k list" where
  "act (Claim k) (s, guards) = (let (ok, s') = claim s k in (s', if ok then k # guards else guards))"
| "act (Release k) (s, guards) =
     (if k \<in> set guards then (release s k, remove1 k guards) else (s, guards))"

definition consistent :: "'s \<times> 'k list \<Rightarrow> bool" where
  "consistent c \<longleftrightarrow> distinct (snd c) \<and> set (snd c) = held (fst c)"

lemma act_consistent:
  assumes "consistent c"
  shows "consistent (act a c)"
proof (cases a)
  case (Claim k)
  then show ?thesis
    using assms granted [of "fst c" k] held_claim [of "fst c" k]
    by (cases c) (auto simp: consistent_def Let_def split: prod.splits)
next
  case (Release k)
  then show ?thesis
    using assms held_release [of "fst c" k]
    by (cases c) (auto simp: consistent_def distinct_remove1)
qed

lemma acts_consistent: "consistent c \<Longrightarrow> consistent (fold act as c)"
  by (induction as arbitrary: c) (simp_all add: act_consistent)

text \<open>Any interleaving of claims and releases leaves at most one guard for a key, and a key is
  claimable exactly when no guard for it is in use.\<close>

lemma exclusive:
  assumes "held s = {}"
  shows "distinct (snd (fold act as (s, []))) \<and>
    (\<forall>k. fst (claim (fst (fold act as (s, []))) k) \<longleftrightarrow> k \<notin> set (snd (fold act as (s, []))))"
proof -
  have "consistent (s, [])" using assms by (simp add: consistent_def)
  then have "consistent (fold act as (s, []))" by (rule acts_consistent)
  then show ?thesis by (simp add: consistent_def granted)
qed

lemma claim_release_claim: "fst (claim (release (snd (claim s k)) k) k)"
  by (simp add: granted held_release)

end

section \<open>A cache of variants\<close>

datatype ('p, 'n, 'v, 'r) cache_op = Put 'p 'n 'v 'r | Drop 'p | Shrink

definition table_le :: "('p \<Rightarrow> ('n \<times> ('v \<rightharpoonup> 'r)) option) \<Rightarrow> ('p \<Rightarrow> ('n \<times> ('v \<rightharpoonup> 'r)) option) \<Rightarrow> bool" where
  "table_le T T' \<longleftrightarrow>
     (\<forall>p n m. T p = Some (n, m) \<longrightarrow> (\<exists>m'. T' p = Some (n, m') \<and> m \<subseteq>\<^sub>m m'))"

locale variant_cache =
  fixes inv :: "'s \<Rightarrow> bool"
    and table :: "'s \<Rightarrow> 'p \<Rightarrow> ('n \<times> ('v \<rightharpoonup> 'r)) option"
    and step :: "('p, 'n, 'v, 'r) cache_op \<Rightarrow> 's \<Rightarrow> 's \<Rightarrow> bool"
    and answer :: "'s \<Rightarrow> 'p \<Rightarrow> ('n \<Rightarrow> 'v) \<Rightarrow> 'r \<Rightarrow> bool"
  assumes answer_sound: "inv s \<Longrightarrow> answer s p sel r \<Longrightarrow> \<exists>n m. table s p = Some (n, m) \<and> m (sel n) = Some r"
    and table_put: "inv s \<Longrightarrow> step (Put p n v r) s s' \<Longrightarrow>
      \<exists>m. table s' = (table s)(p \<mapsto> (n, m(v \<mapsto> r))) \<and> (m = Map.empty \<or> table s p = Some (n, m))"
    and table_drop: "inv s \<Longrightarrow> step (Drop p) s s' \<Longrightarrow> table s' = (table s)(p := None)"
    and table_shrink: "inv s \<Longrightarrow> step Shrink s s' \<Longrightarrow> table_le (table s') (table s)"
    and inv_step: "inv s \<Longrightarrow> step op s s' \<Longrightarrow> inv s'"
begin

inductive run :: "'s \<Rightarrow> ('p, 'n, 'v, 'r) cache_op list \<Rightarrow> 's \<Rightarrow> bool" where
  run_Nil: "run s [] s"
| run_snoc: "run s ops s' \<Longrightarrow> step op s' s'' \<Longrightarrow> run s (ops @ [op]) s''"

lemma run_inv: "run s ops s' \<Longrightarrow> inv s \<Longrightarrow> inv s'"
  by (induction rule: run.induct) (auto intro: inv_step)

text \<open>What a table holds after a run: a variant of the start, or one put since the last drop.\<close>

lemma table_origin:
  assumes "run s ops s'" and "inv s"
    and "table s' p = Some (n, m)" and "m v = Some r"
  shows "Put p n v r \<in> set ops \<or> (\<exists>m0. table s p = Some (n, m0) \<and> m0 v = Some r \<and> Drop p \<notin> set ops)"
  using assms
proof (induction arbitrary: p n m v r rule: run.induct)
  case (run_Nil s)
  then show ?case by auto
next
  case (run_snoc s ops s' op s'')
  have inv': "inv s'" using run_snoc.hyps(1) run_snoc.prems(1) by (rule run_inv)
  show ?case
  proof (cases op)
    case (Put q k w x)
    with table_put [OF inv'] run_snoc.hyps(2) obtain m1
      where t: "table s'' = (table s')(q \<mapsto> (k, m1(w \<mapsto> x)))"
        and m1: "m1 = Map.empty \<or> table s' q = Some (k, m1)" by blast
    show ?thesis
    proof (cases "p = q \<and> v = w")
      case True
      then show ?thesis using run_snoc.prems(2,3) t Put by auto
    next
      case False
      then obtain m' where "table s' p = Some (n, m')" and "m' v = Some r"
        using run_snoc.prems(2,3) t m1 by (auto split: if_splits)
      then show ?thesis using run_snoc.IH [OF run_snoc.prems(1)] Put by auto
    qed
  next
    case (Drop q)
    with table_drop [OF inv'] run_snoc.hyps(2) have "table s'' = (table s')(q := None)" by blast
    then show ?thesis
      using run_snoc.IH [OF run_snoc.prems(1)] run_snoc.prems(2,3) Drop by (auto split: if_splits)
  next
    case Shrink
    with table_shrink [OF inv'] run_snoc.hyps(2) have "table_le (table s'') (table s')" by blast
    then obtain m' where "table s' p = Some (n, m')" and "m \<subseteq>\<^sub>m m'"
      using run_snoc.prems(2) unfolding table_le_def by blast
    moreover have "m' v = Some r"
      using calculation(2) run_snoc.prems(3) by (metis domI map_le_def)
    ultimately show ?thesis using run_snoc.IH [OF run_snoc.prems(1)] Shrink by auto
  qed
qed

text \<open>Isolation: from an empty table, every answer was put for the same target and for the
  values that the asking request selects.\<close>

lemma answer_was_put:
  assumes "run s ops s'" and "inv s" and "table s = (\<lambda>_. None)" and "answer s' p sel r"
  shows "\<exists>n. Put p n (sel n) r \<in> set ops"
proof -
  have "inv s'" using assms(1,2) by (rule run_inv)
  then obtain n m where "table s' p = Some (n, m)" and "m (sel n) = Some r"
    using answer_sound assms(4) by blast
  then show ?thesis using table_origin [OF assms(1,2)] assms(3) by fastforce
qed

text \<open>After a drop nothing answers until the next put for the target.\<close>

lemma no_answer_after_drop:
  assumes "inv s" and "step (Drop p) s s'" and "run s' ops s''" and "\<forall>n v r. Put p n v r \<notin> set ops"
  shows "\<not> answer s'' p sel r"
proof
  assume a: "answer s'' p sel r"
  have i: "inv s'" using assms(1,2) by (rule inv_step)
  then have "inv s''" using assms(3) run_inv by blast
  then obtain n m where "table s'' p = Some (n, m)" and "m (sel n) = Some r"
    using answer_sound a by blast
  then show False using table_origin [OF assms(3) i] table_drop [OF assms(1,2)] assms(4) by fastforce
qed

text \<open>After a put, the selected variant is the one put; and when the put changed the names, every
  answer for the target is the response put.\<close>

lemma answer_after_put:
  assumes "inv s" and "step (Put p n v r) s s'" and "answer s' p sel r'"
  shows "sel n = v \<longrightarrow> r' = r"
    and "(\<forall>m. table s p \<noteq> Some (n, m)) \<longrightarrow> r' = r \<and> sel n = v"
proof -
  have i: "inv s'" using assms(1,2) by (rule inv_step)
  obtain m where t: "table s' = (table s)(p \<mapsto> (n, m(v \<mapsto> r)))"
    and m: "m = Map.empty \<or> table s p = Some (n, m)"
    using table_put [OF assms(1,2)] by blast
  have ans: "(m(v \<mapsto> r)) (sel n) = Some r'" using answer_sound [OF i assms(3)] t by auto
  then show "sel n = v \<longrightarrow> r' = r" by auto
  show "(\<forall>m. table s p \<noteq> Some (n, m)) \<longrightarrow> r' = r \<and> sel n = v"
    using ans m by (auto split: if_splits)
qed

end

end
