(* ===== verification/Coalesce.thy ===== *)
theory Coalesce
  imports Prelude Contracts
begin

text \<open>
  Request coalescing, \<^verbatim>\<open>src/src/coalesce.rs\<close>. A flight is a watch channel: the table holds the
  receiving end of each flight by its key, the leader's guard owns the sender, and a follower
  waits until the sender is gone. Channels are numbered in the order they are made. Nothing is
  ever sent, so the only observable event of a channel is that its sender has dropped.
  Each access to the table runs under its mutex and is one step. Dropping a guard is not one
  step: \<open>flight_guard_drop\<close> is the list of its parts in the order Rust runs them, the body of
  \<open>Drop::drop\<close> and then the fields, and other requests may run between them.
\<close>

section \<open>Flights\<close>

type_synonym channel = nat

record 'k flights =
  in_flight :: "'k \<rightharpoonup> channel"
  fl_channels :: nat \<comment> \<open>the number of channels made\<close>
  fl_closed :: "channel set" \<comment> \<open>the channels whose sender has dropped\<close>

record 'k flight_guard =
  fg_key :: 'k
  fg_sender :: channel

datatype 'k join = Lead "'k flight_guard" | Follow channel | Alone

definition flights_default :: "'k flights" where
  "flights_default = \<lparr>in_flight = Map.empty, fl_channels = 0, fl_closed = {}\<rparr>"

definition flights_join :: "'k flights \<Rightarrow> 'k \<Rightarrow> bool \<Rightarrow> 'k join \<times> 'k flights" where
  "flights_join f key lead =
     (case in_flight f key of
        Some done_rx \<Rightarrow> (Follow done_rx, f)
      | None \<Rightarrow>
          if \<not> lead then (Alone, f)
          else (Lead \<lparr>fg_key = key, fg_sender = fl_channels f\<rparr>,
                f\<lparr>in_flight := (in_flight f)(key \<mapsto> fl_channels f), fl_channels := Suc (fl_channels f)\<rparr>))"

datatype 'k drop_act = RemoveKey 'k | CloseSender channel

fun run_drop :: "'k drop_act \<Rightarrow> 'k flights \<Rightarrow> 'k flights" where
  "run_drop (RemoveKey key) f = f\<lparr>in_flight := (in_flight f)(key := None)\<rparr>"
| "run_drop (CloseSender c) f = f\<lparr>fl_closed := insert c (fl_closed f)\<rparr>"

definition flight_guard_drop :: "'k flight_guard \<Rightarrow> 'k drop_act list" where
  "flight_guard_drop g = [RemoveKey (fg_key g), CloseSender (fg_sender g)]"

definition drop_flight_guard :: "'k flights \<Rightarrow> 'k flight_guard \<Rightarrow> 'k flights" where
  "drop_flight_guard f g = fold run_drop (flight_guard_drop g) f"

text \<open>\<open>Waiter::wait\<close> returns when \<open>changed\<close> fails, that is once the sender has dropped.\<close>

definition wait_returns :: "'k flights \<Rightarrow> channel \<Rightarrow> bool" where
  "wait_returns f c \<longleftrightarrow> c \<in> fl_closed f"

section \<open>Requests and guards running together\<close>

text \<open>The guards in use, each with the parts of its drop still to run, and the waiting followers.\<close>

record 'k flight_world =
  fw_flights :: "'k flights"
  fw_guards :: "('k flight_guard \<times> 'k drop_act list) set"
  fw_waiters :: "('k \<times> channel) set"

definition flight_world_new :: "'k flight_world" where
  "flight_world_new = \<lparr>fw_flights = flights_default, fw_guards = {}, fw_waiters = {}\<rparr>"

inductive flight_step :: "'k flight_world \<Rightarrow> 'k flight_world \<Rightarrow> bool" where
  step_lead: "flights_join (fw_flights w) key lead = (Lead g, f) \<Longrightarrow>
    flight_step w (w\<lparr>fw_flights := f, fw_guards := insert (g, flight_guard_drop g) (fw_guards w)\<rparr>)"
| step_follow: "flights_join (fw_flights w) key lead = (Follow c, f) \<Longrightarrow>
    flight_step w (w\<lparr>fw_flights := f, fw_waiters := insert (key, c) (fw_waiters w)\<rparr>)"
| step_alone: "flights_join (fw_flights w) key lead = (Alone, f) \<Longrightarrow>
    flight_step w (w\<lparr>fw_flights := f\<rparr>)"
| step_drop: "(g, a # acts) \<in> fw_guards w \<Longrightarrow>
    flight_step w (w\<lparr>fw_flights := run_drop a (fw_flights w),
      fw_guards := (fw_guards w - {(g, a # acts)}) \<union> (if acts = [] then {} else {(g, acts)})\<rparr>)"
| step_woken: "(key, c) \<in> fw_waiters w \<Longrightarrow> wait_returns (fw_flights w) c \<Longrightarrow>
    flight_step w (w\<lparr>fw_waiters := fw_waiters w - {(key, c)}\<rparr>)"
| step_given_up: "(key, c) \<in> fw_waiters w \<Longrightarrow>
    flight_step w (w\<lparr>fw_waiters := fw_waiters w - {(key, c)}\<rparr>)"

inductive flight_reach :: "'k flight_world \<Rightarrow> bool" where
  reach_new: "flight_reach flight_world_new"
| reach_step: "flight_reach w \<Longrightarrow> flight_step w w' \<Longrightarrow> flight_reach w'"

lemma flights_join_Lead:
  "flights_join f key lead = (Lead g, f') \<longleftrightarrow>
     in_flight f key = None \<and> lead \<and> g = \<lparr>fg_key = key, fg_sender = fl_channels f\<rparr> \<and>
     f' = f\<lparr>in_flight := (in_flight f)(key \<mapsto> fl_channels f), fl_channels := Suc (fl_channels f)\<rparr>"
  by (auto simp: flights_join_def split: option.splits)

lemma flights_join_Follow:
  "flights_join f key lead = (Follow c, f') \<longleftrightarrow> in_flight f key = Some c \<and> f' = f"
  by (auto simp: flights_join_def split: option.splits)

lemma flights_join_Alone:
  "flights_join f key lead = (Alone, f') \<longleftrightarrow> in_flight f key = None \<and> \<not> lead \<and> f' = f"
  by (auto simp: flights_join_def split: option.splits)

lemmas flights_join_cases = flights_join_Lead flights_join_Follow flights_join_Alone

section \<open>The invariant\<close>

definition guard_phases :: "'k flight_world \<Rightarrow> bool" where
  "guard_phases w \<longleftrightarrow>
     (\<forall>g acts. (g, acts) \<in> fw_guards w \<longrightarrow>
        (acts = flight_guard_drop g \<or> acts = [CloseSender (fg_sender g)]) \<and>
        fg_sender g < fl_channels (fw_flights w) \<and> fg_sender g \<notin> fl_closed (fw_flights w))"

definition guards_own :: "'k flight_world \<Rightarrow> bool" where
  "guards_own w \<longleftrightarrow>
     (\<forall>g acts g' acts'. (g, acts) \<in> fw_guards w \<longrightarrow> (g', acts') \<in> fw_guards w \<longrightarrow>
        fg_sender g = fg_sender g' \<longrightarrow> g = g' \<and> acts = acts')"

definition table_owned :: "'k flight_world \<Rightarrow> bool" where
  "table_owned w \<longleftrightarrow>
     (\<forall>k c. in_flight (fw_flights w) k = Some c \<longleftrightarrow>
        (\<lparr>fg_key = k, fg_sender = c\<rparr>, flight_guard_drop \<lparr>fg_key = k, fg_sender = c\<rparr>) \<in> fw_guards w)"

definition waiters_led :: "'k flight_world \<Rightarrow> bool" where
  "waiters_led w \<longleftrightarrow>
     (\<forall>k c. (k, c) \<in> fw_waiters w \<longrightarrow> c \<in> fl_closed (fw_flights w) \<or>
        (\<exists>acts. (\<lparr>fg_key = k, fg_sender = c\<rparr>, acts) \<in> fw_guards w))"

definition closed_made :: "'k flight_world \<Rightarrow> bool" where
  "closed_made w \<longleftrightarrow> (\<forall>c \<in> fl_closed (fw_flights w). c < fl_channels (fw_flights w))"

definition flight_inv :: "'k flight_world \<Rightarrow> bool" where
  "flight_inv w \<longleftrightarrow> guard_phases w \<and> guards_own w \<and> table_owned w \<and> waiters_led w \<and> closed_made w"

lemmas flight_inv_defs = flight_inv_def guard_phases_def guards_own_def table_owned_def
  waiters_led_def closed_made_def

lemma flight_inv_new: "flight_inv flight_world_new"
  by (simp add: flight_inv_defs flight_world_new_def flights_default_def)

lemma glue_neq [simp]:
  "flight_guard_drop g \<noteq> [CloseSender c]" "flight_guard_drop g \<noteq> []" "[CloseSender c] \<noteq> flight_guard_drop g"
  "flight_guard_drop g = flight_guard_drop g' \<longleftrightarrow> g = g'"
  by (cases g; cases g'; auto simp: flight_guard_drop_def)+

lemma flight_inv_lead:
  assumes inv: "flight_inv w" and join: "flights_join (fw_flights w) key lead = (Lead g, f)"
  shows "flight_inv (w\<lparr>fw_flights := f, fw_guards := insert (g, flight_guard_drop g) (fw_guards w)\<rparr>)"
proof -
  let ?c = "fl_channels (fw_flights w)"
  have g: "g = \<lparr>fg_key = key, fg_sender = ?c\<rparr>" and free: "in_flight (fw_flights w) key = None"
    and f: "f = (fw_flights w)\<lparr>in_flight := (in_flight (fw_flights w))(key \<mapsto> ?c), fl_channels := Suc ?c\<rparr>"
    using join by (simp_all add: flights_join_Lead)
  have new: "(h, acts) \<in> fw_guards w \<Longrightarrow> fg_sender h \<noteq> ?c" for h acts
    using inv unfolding flight_inv_def guard_phases_def by (metis less_irrefl)
  have "guard_phases w" "guards_own w" "table_owned w" "waiters_led w" "closed_made w"
    using inv by (simp_all add: flight_inv_def)
  note parts = this
  have "guard_phases (w\<lparr>fw_flights := f, fw_guards := insert (g, flight_guard_drop g) (fw_guards w)\<rparr>)"
    using parts(1,5) by (auto simp: guard_phases_def closed_made_def g f less_SucI)
  moreover have "guards_own (w\<lparr>fw_flights := f, fw_guards := insert (g, flight_guard_drop g) (fw_guards w)\<rparr>)"
    unfolding guards_own_def
  proof (intro allI impI)
    fix h acts h' acts'
    assume h: "(h, acts) \<in> fw_guards (w\<lparr>fw_flights := f, fw_guards := insert (g, flight_guard_drop g) (fw_guards w)\<rparr>)"
        "(h', acts') \<in> fw_guards (w\<lparr>fw_flights := f, fw_guards := insert (g, flight_guard_drop g) (fw_guards w)\<rparr>)"
      and eq: "fg_sender h = fg_sender h'"
    have "fg_sender g = ?c" by (simp add: g)
    moreover have "(h, acts) \<in> fw_guards w \<Longrightarrow> (h', acts') \<in> fw_guards w \<Longrightarrow> h = h' \<and> acts = acts'"
      using parts(2) eq unfolding guards_own_def by blast
    moreover have "(h, acts) = (g, flight_guard_drop g) \<or> (h, acts) \<in> fw_guards w"
      "(h', acts') = (g, flight_guard_drop g) \<or> (h', acts') \<in> fw_guards w"
      using h by simp_all
    ultimately show "h = h' \<and> acts = acts'"
      using eq new by (metis prod.inject)
  qed
  moreover have "table_owned (w\<lparr>fw_flights := f, fw_guards := insert (g, flight_guard_drop g) (fw_guards w)\<rparr>)"
    unfolding table_owned_def
  proof (intro allI)
    fix k c
    have "in_flight (fw_flights w) k = Some c \<longleftrightarrow>
        (\<lparr>fg_key = k, fg_sender = c\<rparr>, flight_guard_drop \<lparr>fg_key = k, fg_sender = c\<rparr>) \<in> fw_guards w"
      using parts(3) unfolding table_owned_def by blast
    then show "in_flight (fw_flights (w\<lparr>fw_flights := f,
          fw_guards := insert (g, flight_guard_drop g) (fw_guards w)\<rparr>)) k = Some c \<longleftrightarrow>
        (\<lparr>fg_key = k, fg_sender = c\<rparr>, flight_guard_drop \<lparr>fg_key = k, fg_sender = c\<rparr>)
          \<in> fw_guards (w\<lparr>fw_flights := f, fw_guards := insert (g, flight_guard_drop g) (fw_guards w)\<rparr>)"
      using free by (auto simp: g f)
  qed
  moreover have "waiters_led (w\<lparr>fw_flights := f, fw_guards := insert (g, flight_guard_drop g) (fw_guards w)\<rparr>)"
    using parts(4) by (auto simp: waiters_led_def f)
  moreover have "closed_made (w\<lparr>fw_flights := f, fw_guards := insert (g, flight_guard_drop g) (fw_guards w)\<rparr>)"
    using parts(5) by (auto simp: closed_made_def f less_SucI)
  ultimately show ?thesis by (simp add: flight_inv_def)
qed

lemma flight_inv_parts:
  assumes "flight_inv w"
  shows "\<And>g acts. (g, acts) \<in> fw_guards w \<Longrightarrow> acts = flight_guard_drop g \<or> acts = [CloseSender (fg_sender g)]"
    and "\<And>g acts. (g, acts) \<in> fw_guards w \<Longrightarrow> fg_sender g < fl_channels (fw_flights w)"
    and "\<And>g acts. (g, acts) \<in> fw_guards w \<Longrightarrow> fg_sender g \<notin> fl_closed (fw_flights w)"
    and "\<And>g acts g' acts'. (g, acts) \<in> fw_guards w \<Longrightarrow> (g', acts') \<in> fw_guards w \<Longrightarrow>
      fg_sender g = fg_sender g' \<Longrightarrow> g = g' \<and> acts = acts'"
    and "\<And>k c. in_flight (fw_flights w) k = Some c \<longleftrightarrow>
      (\<lparr>fg_key = k, fg_sender = c\<rparr>, flight_guard_drop \<lparr>fg_key = k, fg_sender = c\<rparr>) \<in> fw_guards w"
    and "\<And>k c. (k, c) \<in> fw_waiters w \<Longrightarrow> c \<in> fl_closed (fw_flights w) \<or>
      (\<exists>acts. (\<lparr>fg_key = k, fg_sender = c\<rparr>, acts) \<in> fw_guards w)"
    and "\<And>c. c \<in> fl_closed (fw_flights w) \<Longrightarrow> c < fl_channels (fw_flights w)"
  using assms unfolding flight_inv_defs by blast+

text \<open>First part of a drop: the key leaves the table, the sender is still there.\<close>

lemma flight_inv_remove_key:
  assumes inv: "flight_inv w" and g: "(g, flight_guard_drop g) \<in> fw_guards w"
  shows "flight_inv (w\<lparr>fw_flights := run_drop (RemoveKey (fg_key g)) (fw_flights w),
    fw_guards := (fw_guards w - {(g, flight_guard_drop g)}) \<union> {(g, [CloseSender (fg_sender g)])}\<rparr>)"
    (is "flight_inv ?w")
proof -
  note parts = flight_inv_parts [OF inv]
  have mem: "(h, acts) \<in> fw_guards ?w \<longleftrightarrow>
      (h, acts) \<in> fw_guards w \<and> h \<noteq> g \<or> h = g \<and> acts = [CloseSender (fg_sender g)]" for h acts
    using parts(4) [OF g, of h acts] by auto
  have fl: "fl_channels (fw_flights ?w) = fl_channels (fw_flights w)"
    "fl_closed (fw_flights ?w) = fl_closed (fw_flights w)" "fw_waiters ?w = fw_waiters w"
    "in_flight (fw_flights ?w) = (in_flight (fw_flights w))(fg_key g := None)"
    by simp_all
  have "guard_phases ?w" unfolding guard_phases_def mem fl using parts(1-3) g by blast
  moreover have "guards_own ?w" unfolding guards_own_def mem using parts(4) g by blast
  moreover have "closed_made ?w" unfolding closed_made_def fl using parts(7) by blast
  moreover have "waiters_led ?w"
    unfolding waiters_led_def mem fl using parts(6) by blast
  moreover have "table_owned ?w"
    unfolding table_owned_def mem fl
  proof (intro allI)
    fix k c
    have "in_flight (fw_flights w) (fg_key g) = Some (fg_sender g)"
      using parts(5) [of "fg_key g" "fg_sender g"] g by (cases g) simp
    then have "k = fg_key g \<Longrightarrow> in_flight (fw_flights w) k = Some c \<Longrightarrow> g = \<lparr>fg_key = k, fg_sender = c\<rparr>"
      by (cases g) simp
    then show "((in_flight (fw_flights w))(fg_key g := None)) k = Some c \<longleftrightarrow>
        ((\<lparr>fg_key = k, fg_sender = c\<rparr>, flight_guard_drop \<lparr>fg_key = k, fg_sender = c\<rparr>) \<in> fw_guards w \<and>
          \<lparr>fg_key = k, fg_sender = c\<rparr> \<noteq> g \<or>
         \<lparr>fg_key = k, fg_sender = c\<rparr> = g \<and>
          flight_guard_drop \<lparr>fg_key = k, fg_sender = c\<rparr> = [CloseSender (fg_sender g)])"
      using parts(5) [of k c] by auto
  qed
  ultimately show ?thesis unfolding flight_inv_def by blast
qed

text \<open>Last part of a drop: the sender goes, and the followers wake.\<close>

lemma flight_inv_close_sender:
  assumes inv: "flight_inv w" and g: "(g, [CloseSender (fg_sender g)]) \<in> fw_guards w"
  shows "flight_inv (w\<lparr>fw_flights := run_drop (CloseSender (fg_sender g)) (fw_flights w),
    fw_guards := fw_guards w - {(g, [CloseSender (fg_sender g)])}\<rparr>)"
    (is "flight_inv ?w")
proof -
  note parts = flight_inv_parts [OF inv]
  have mem: "(h, acts) \<in> fw_guards ?w \<longleftrightarrow> (h, acts) \<in> fw_guards w \<and> fg_sender h \<noteq> fg_sender g" for h acts
    using parts(4) [OF g, of h acts] by auto
  have fl: "fl_channels (fw_flights ?w) = fl_channels (fw_flights w)"
    "fl_closed (fw_flights ?w) = insert (fg_sender g) (fl_closed (fw_flights w))"
    "in_flight (fw_flights ?w) = in_flight (fw_flights w)" "fw_waiters ?w = fw_waiters w"
    by simp_all
  have "guard_phases ?w" unfolding guard_phases_def mem fl insert_iff using parts(1-3) by blast
  moreover have "guards_own ?w" unfolding guards_own_def mem using parts(4) by blast
  moreover have "closed_made ?w" unfolding closed_made_def fl using parts(7) parts(2) [OF g] by blast
  moreover have "waiters_led ?w"
    unfolding waiters_led_def mem fl insert_iff using parts(6) by fastforce
  moreover have "table_owned ?w"
    unfolding table_owned_def mem fl
  proof (intro allI)
    fix k c
    have "(\<lparr>fg_key = k, fg_sender = c\<rparr>, flight_guard_drop \<lparr>fg_key = k, fg_sender = c\<rparr>) \<in> fw_guards w \<Longrightarrow>
        c \<noteq> fg_sender g"
      using parts(4) [OF g] by fastforce
    then show "in_flight (fw_flights w) k = Some c \<longleftrightarrow>
        (\<lparr>fg_key = k, fg_sender = c\<rparr>, flight_guard_drop \<lparr>fg_key = k, fg_sender = c\<rparr>) \<in> fw_guards w \<and>
        fg_sender \<lparr>fg_key = k, fg_sender = c\<rparr> \<noteq> fg_sender g"
      using parts(5) [of k c] by auto
  qed
  ultimately show ?thesis unfolding flight_inv_def by blast
qed

lemma flight_inv_waiters:
  assumes "flight_inv w" and "\<And>k c. (k, c) \<in> W \<Longrightarrow> (k, c) \<in> fw_waiters w \<or> in_flight (fw_flights w) k = Some c"
  shows "flight_inv (w\<lparr>fw_waiters := W\<rparr>)"
proof -
  have "waiters_led (w\<lparr>fw_waiters := W\<rparr>)"
    using assms(2) flight_inv_parts(5,6) [OF assms(1)] by (simp add: waiters_led_def) blast
  then show ?thesis using assms(1)
    by (simp add: flight_inv_def guard_phases_def guards_own_def table_owned_def closed_made_def)
qed

lemma flight_inv_step [invs]:
  assumes "flight_inv w" and "flight_step w w'"
  shows "flight_inv w'"
  using assms(2)
proof (cases rule: flight_step.cases)
  case (step_lead key lead g f)
  then show ?thesis using flight_inv_lead [OF assms(1)] by simp
next
  case (step_follow key lead c f)
  then have w': "w' = w\<lparr>fw_waiters := insert (key, c) (fw_waiters w)\<rparr>" "in_flight (fw_flights w) key = Some c"
    by (simp_all add: flights_join_Follow)
  show ?thesis unfolding w'(1) by (rule flight_inv_waiters [OF assms(1)]) (use w'(2) in auto)
next
  case (step_alone key lead f)
  then show ?thesis using assms(1) by (simp add: flights_join_Alone)
next
  case (step_drop g a acts)
  from flight_inv_parts(1) [OF assms(1) step_drop(2)] show ?thesis
  proof
    assume full: "a # acts = flight_guard_drop g"
    then have "a = RemoveKey (fg_key g)" "acts = [CloseSender (fg_sender g)]"
      by (simp_all add: flight_guard_drop_def)
    then show ?thesis using flight_inv_remove_key [OF assms(1)] step_drop full by simp
  next
    assume "a # acts = [CloseSender (fg_sender g)]"
    then show ?thesis using flight_inv_close_sender [OF assms(1)] step_drop by simp
  qed
next
  case (step_woken key c)
  then show ?thesis using flight_inv_waiters [OF assms(1)] by auto
next
  case (step_given_up key c)
  then show ?thesis using flight_inv_waiters [OF assms(1)] by auto
qed

lemma flight_reach_inv: "flight_reach w \<Longrightarrow> flight_inv w"
  by (induction rule: flight_reach.induct) (auto intro: flight_inv_new flight_inv_step)

section \<open>The flight guard as a claim\<close>

definition claim_flight :: "'k flights \<Rightarrow> 'k \<Rightarrow> bool \<times> 'k flights" where
  "claim_flight f key = (case flights_join f key True of
     (Lead _, f') \<Rightarrow> (True, f') | (_, f') \<Rightarrow> (False, f'))"

definition release_flight :: "'k flights \<Rightarrow> 'k \<Rightarrow> 'k flights" where
  "release_flight f key = (case in_flight f key of
     None \<Rightarrow> f | Some c \<Rightarrow> drop_flight_guard f \<lparr>fg_key = key, fg_sender = c\<rparr>)"

interpretation flight: claims "\<lambda>f. dom (in_flight f)" claim_flight release_flight
  by unfold_locales
    (auto simp: claim_flight_def release_flight_def drop_flight_guard_def flight_guard_drop_def
      flights_join_def split: option.splits)

section \<open>Properties\<close>

text \<open>
  One leader per key: in every reachable state, whatever the interleaving of joins, drops and
  waits, while a guard is in the table every request that joins its key follows that guard's
  flight, and no second guard for the key is in the table.\<close>

theorem single_leader:
  assumes "flight_reach w" and "(g, flight_guard_drop g) \<in> fw_guards w"
  shows "flights_join (fw_flights w) (fg_key g) lead = (Follow (fg_sender g), fw_flights w) \<and>
    (fg_key h = fg_key g \<and> h \<noteq> g \<longrightarrow> (h, flight_guard_drop h) \<notin> fw_guards w)"
proof -
  note parts = flight_inv_parts [OF flight_reach_inv [OF assms(1)]]
  have tab: "(h, flight_guard_drop h) \<in> fw_guards w \<Longrightarrow> in_flight (fw_flights w) (fg_key h) = Some (fg_sender h)" for h
    using parts(5) [of "fg_key h" "fg_sender h"] by (cases h) simp
  show ?thesis
    using tab [OF assms(2)] tab [of h] parts(4) [OF assms(2), of h] by (auto simp: flights_join_Follow)
qed

definition led_world :: "nat flight_world" where
  "led_world =
     \<lparr>fw_flights = snd (flights_join flights_default 7 True),
      fw_guards = {(\<lparr>fg_key = 7, fg_sender = 0\<rparr>, flight_guard_drop \<lparr>fg_key = 7, fg_sender = 0\<rparr>)},
      fw_waiters = {}\<rparr>"

lemma led_world_reach: "flight_reach led_world"
proof (rule reach_step [OF reach_new])
  have "flights_join (fw_flights flight_world_new) (7 :: nat) True =
      (Lead \<lparr>fg_key = 7, fg_sender = 0\<rparr>, snd (flights_join flights_default 7 True))"
    by (simp add: flight_world_new_def flights_join_def flights_default_def)
  from step_lead [OF this] show "flight_step flight_world_new led_world"
    by (simp add: led_world_def flight_world_new_def)
qed

theorem single_leader_witness:
  "flights_join (fw_flights led_world) 7 True = (Follow 0, fw_flights led_world) \<and>
    (\<lparr>fg_key = 7, fg_sender = 1\<rparr>, flight_guard_drop \<lparr>fg_key = 7, fg_sender = 1\<rparr>) \<notin> fw_guards led_world"
  using single_leader [OF led_world_reach, of "\<lparr>fg_key = 7, fg_sender = 0\<rparr>" True "\<lparr>fg_key = 7, fg_sender = 1\<rparr>"]
  by (simp add: led_world_def)

text \<open>
  C25. A woken follower never finds the flight it waited for: once \<open>wait\<close> can return for a
  channel, no request that joins any key is told to follow that channel. The order in which a
  guard drops, first its key and then its sender, is what makes this hold.\<close>

theorem woken_never_refollows:
  assumes "flight_reach w" and "wait_returns (fw_flights w) c"
  shows "fst (flights_join (fw_flights w) key lead) \<noteq> Follow c"
proof
  note parts = flight_inv_parts [OF flight_reach_inv [OF assms(1)]]
  assume "fst (flights_join (fw_flights w) key lead) = Follow c"
  then have "in_flight (fw_flights w) key = Some c"
    by (cases "flights_join (fw_flights w) key lead") (simp add: flights_join_Follow)
  then show False
    using parts(5) [of key c] parts(3) assms(2) by (fastforce simp: wait_returns_def)
qed

text \<open>The world after the leader of \<open>led_world\<close> has dropped its guard.\<close>

definition landed_world :: "nat flight_world" where
  "landed_world =
     \<lparr>fw_flights = drop_flight_guard (fw_flights led_world) \<lparr>fg_key = 7, fg_sender = 0\<rparr>,
      fw_guards = {}, fw_waiters = {}\<rparr>"

lemma landed_world_reach: "flight_reach landed_world"
proof -
  let ?g = "\<lparr>fg_key = 7 :: nat, fg_sender = 0\<rparr>"
  define mid where "mid = led_world\<lparr>fw_flights := run_drop (RemoveKey 7) (fw_flights led_world),
    fw_guards := {(?g, [CloseSender 0])}\<rparr>"
  have "(?g, RemoveKey 7 # [CloseSender 0]) \<in> fw_guards led_world"
    by (simp add: led_world_def flight_guard_drop_def)
  from step_drop [OF this] have "flight_step led_world mid"
    by (simp add: mid_def led_world_def flight_guard_drop_def)
  then have mid: "flight_reach mid" by (rule reach_step [OF led_world_reach])
  have "(?g, CloseSender 0 # []) \<in> fw_guards mid" by (simp add: mid_def)
  from step_drop [OF this] have "flight_step mid landed_world"
    by (simp add: mid_def landed_world_def led_world_def drop_flight_guard_def flight_guard_drop_def)
  then show ?thesis by (rule reach_step [OF mid])
qed

theorem woken_never_refollows_witness:
  "wait_returns (fw_flights landed_world) 0 \<and>
    fst (flights_join (fw_flights landed_world) 7 True) \<noteq> Follow 0"
proof -
  have "wait_returns (fw_flights landed_world) 0"
    by (simp add: wait_returns_def landed_world_def drop_flight_guard_def flight_guard_drop_def)
  then show ?thesis using woken_never_refollows [OF landed_world_reach] by blast
qed

text \<open>
  No follower waits for nothing: as long as \<open>wait\<close> cannot return for a follower, the guard
  of the flight it follows, with the follower's key, is still in use or being dropped.\<close>

theorem waiter_has_leader:
  assumes "flight_reach w" and "(key, c) \<in> fw_waiters w" and "\<not> wait_returns (fw_flights w) c"
  shows "\<exists>acts. (\<lparr>fg_key = key, fg_sender = c\<rparr>, acts) \<in> fw_guards w \<and> last acts = CloseSender c"
proof -
  note parts = flight_inv_parts [OF flight_reach_inv [OF assms(1)]]
  obtain acts where g: "(\<lparr>fg_key = key, fg_sender = c\<rparr>, acts) \<in> fw_guards w"
    using parts(6) [OF assms(2)] assms(3) by (auto simp: wait_returns_def)
  have "last acts = CloseSender c" using parts(1) [OF g] by (auto simp: flight_guard_drop_def)
  then show ?thesis using g by blast
qed

definition waiting_world :: "nat flight_world" where
  "waiting_world = led_world\<lparr>fw_waiters := {(7, 0)}\<rparr>"

lemma waiting_world_reach: "flight_reach waiting_world"
proof (rule reach_step [OF led_world_reach])
  have "flights_join (fw_flights led_world) 7 False = (Follow 0, fw_flights led_world)"
    by (simp add: led_world_def flights_join_def flights_default_def)
  from step_follow [OF this] show "flight_step led_world waiting_world"
    by (simp add: waiting_world_def led_world_def)
qed

theorem waiter_has_leader_witness:
  "\<exists>acts. (\<lparr>fg_key = 7, fg_sender = 0\<rparr>, acts) \<in> fw_guards waiting_world \<and> last acts = CloseSender 0"
proof (rule waiter_has_leader [OF waiting_world_reach])
  show "(7, 0) \<in> fw_waiters waiting_world" by (simp add: waiting_world_def)
  show "\<not> wait_returns (fw_flights waiting_world) 0"
    by (simp add: wait_returns_def waiting_world_def led_world_def flights_join_def flights_default_def)
qed

text \<open>
  Whatever the sequence of joins that may lead and of dropped guards, the leaders' keys are
  distinct, and a request leads exactly when its key has no leader.\<close>

theorem flight_claims_exclusive:
  "distinct (snd (fold flight.act acts (flights_default, []))) \<and>
   (fst (claim_flight (fst (fold flight.act acts (flights_default, []))) key) \<longleftrightarrow>
      key \<notin> set (snd (fold flight.act acts (flights_default, []))))"
  using flight.exclusive [of flights_default acts] by (simp add: flights_default_def)

end
