(* ===== verification/Paths.thy ===== *)
theory Paths
  imports Text_Ops
begin

text \<open>
  The part of \<open>std::path\<close> that \<^verbatim>\<open>src/src/assets.rs\<close> uses, for Unix: a path is its bytes,
  \<open>components\<close> reads it as the library does (a leading separator is the root, repeated
  separators and \<open>.\<close> are skipped except for a leading \<open>.\<close>), \<open>path_push\<close> is \<open>PathBuf::push\<close> and
  \<open>Path::join\<close>, and \<open>path_starts_with\<close> compares whole components.
\<close>

type_synonym path = string

datatype component = RootDir | CurDir | ParentDir | Normal string

abbreviation slash :: char where
  "slash \<equiv> CHR ''/''"

definition is_absolute :: "path \<Rightarrow> bool" where
  "is_absolute p \<longleftrightarrow> p \<noteq> [] \<and> hd p = slash"

definition part_component :: "string \<Rightarrow> component list" where
  "part_component s =
     (if s = [] \<or> s = ''.'' then [] else if s = ''..'' then [ParentDir] else [Normal s])"

definition path_lead :: "path \<Rightarrow> component list" where
  "path_lead p =
     (if is_absolute p then [RootDir] else if hd (split_on slash p) = ''.'' then [CurDir] else [])"

definition path_rest :: "path \<Rightarrow> component list" where
  "path_rest p = concat (map part_component (split_on slash p))"

definition components :: "path \<Rightarrow> component list" where
  "components p = path_lead p @ path_rest p"

definition path_push :: "path \<Rightarrow> path \<Rightarrow> path" where
  "path_push p q =
     (if is_absolute q then q
      else if p \<noteq> [] \<and> last p \<noteq> slash then p @ slash # q
      else p @ q)"

definition path_starts_with :: "path \<Rightarrow> path \<Rightarrow> bool" where
  "path_starts_with p base \<longleftrightarrow> take (length (components base)) (components p) = components base"

section \<open>Pushing\<close>

lemma split_on_append: "split_on c (a @ c # b) = split_on c a @ split_on c b"
  by (induction a) (auto split: list.split)

lemma path_push_cases:
  assumes "\<not> is_absolute q"
  obtains "p = []" "path_push p q = q"
  | p' where "p = p' @ [slash]" "path_push p q = p' @ slash # q"
  | "p \<noteq> []" "path_push p q = p @ slash # q"
proof (cases "p = [] \<or> last p \<noteq> slash")
  case True
  then show ?thesis using assms that(1,3) by (cases "p = []") (simp_all add: path_push_def)
next
  case False
  then have "p = butlast p @ [slash]" by (metis append_butlast_last_id)
  then show ?thesis using False assms that(2) [of "butlast p"] by (simp add: path_push_def)
qed

lemma path_rest_push: "\<not> is_absolute q \<Longrightarrow> path_rest (path_push p q) = path_rest p @ path_rest q"
  by (erule path_push_cases [of q p]) (simp_all add: path_rest_def split_on_append part_component_def)

lemma is_absolute_append: "p \<noteq> [] \<Longrightarrow> is_absolute (p @ q) = is_absolute p"
  by (simp add: is_absolute_def)

lemma path_lead_append: "p \<noteq> [] \<Longrightarrow> path_lead (p @ slash # q) = path_lead p"
  by (simp add: path_lead_def is_absolute_append split_on_append)

lemma path_lead_push:
  assumes "p \<noteq> []" and "\<not> is_absolute q"
  shows "path_lead (path_push p q) = path_lead p"
proof (rule path_push_cases [OF assms(2), of p])
  fix p' assume p: "p = p' @ [slash]" "path_push p q = p' @ slash # q"
  show ?thesis
  proof (cases "p' = []")
    case True
    with p show ?thesis by (simp add: path_lead_def is_absolute_def)
  next
    case False
    then show ?thesis using p path_lead_append [of p' q] path_lead_append [of p' "[]"] by simp
  qed
qed (use assms in \<open>simp_all add: path_lead_append\<close>)

lemma components_push:
  assumes "\<not> is_absolute q" and "path_lead q = []"
  shows "components (path_push p q) = components p @ components q"
proof (cases "p = []")
  case True
  moreover have "components [] = []"
    by (simp add: components_def path_lead_def path_rest_def is_absolute_def part_component_def)
  ultimately show ?thesis using assms(1) by (simp add: path_push_def)
next
  case False
  then show ?thesis using assms by (simp add: components_def path_lead_push path_rest_push)
qed

section \<open>Plain names\<close>

text \<open>A plain name is a single ordinary component: not empty, not \<open>.\<close> or \<open>..\<close>, without separator.\<close>

definition plain_name :: "string \<Rightarrow> bool" where
  "plain_name s \<longleftrightarrow> s \<noteq> [] \<and> s \<noteq> ''.'' \<and> s \<noteq> ''..'' \<and> slash \<notin> set s"

lemma components_no_slash:
  "slash \<notin> set s \<Longrightarrow> components s = (if s = ''.'' then [CurDir] else part_component s)"
  by (auto simp: components_def path_lead_def path_rest_def split_on_no is_absolute_def part_component_def
      dest: list.set_sel)

lemma plain_name_components: "plain_name s \<longleftrightarrow> slash \<notin> set s \<and> components s = [Normal s]"
  by (auto simp: plain_name_def components_no_slash part_component_def)

lemma plain_name_relative: "plain_name s \<Longrightarrow> \<not> is_absolute s \<and> path_lead s = []"
  by (auto simp: plain_name_def is_absolute_def path_lead_def split_on_no dest: list.set_sel)

lemma components_push_plain: "plain_name s \<Longrightarrow> components (path_push p s) = components p @ [Normal s]"
  using components_push plain_name_relative plain_name_components by simp

lemma path_push_nonempty: "q \<noteq> [] \<Longrightarrow> path_push p q \<noteq> []"
  by (simp add: path_push_def)

lemma push_plain_relative:
  assumes "plain_name s" and "\<not> is_absolute p" and "path_lead p = []"
  shows "\<not> is_absolute (path_push p s) \<and> path_lead (path_push p s) = []"
proof (cases "p = []")
  case True
  then show ?thesis using assms(1) plain_name_relative [of s] by (simp add: path_push_def)
next
  case False
  have "path_lead (path_push p s) = []"
    using path_lead_push [OF False] plain_name_relative [OF assms(1)] assms(3) by simp
  then show ?thesis by (auto simp: path_lead_def split: if_splits)
qed

lemma Normal_components: "Normal s \<in> set (components p) \<Longrightarrow> plain_name s"
proof -
  assume "Normal s \<in> set (components p)"
  then have "Normal s \<in> set (path_rest p)"
    by (auto simp: components_def path_lead_def split: if_splits)
  then obtain t where "t \<in> set (split_on slash p)" "Normal s \<in> set (part_component t)"
    by (auto simp: path_rest_def)
  then show ?thesis
    using split_on_pieces [of t slash p] by (auto simp: part_component_def plain_name_def split: if_splits)
qed

text \<open>A canonical path is absolute, without \<open>.\<close> or \<open>..\<close>.\<close>

definition canonical :: "path \<Rightarrow> bool" where
  "canonical p \<longleftrightarrow> (\<exists>names. components p = RootDir # map Normal names)"

lemma starts_with_iff: "path_starts_with p base \<longleftrightarrow> (\<exists>rest. components p = components base @ rest)"
  by (auto simp: path_starts_with_def dest: sym) (metis append_take_drop_id)

lemma canonical_below:
  assumes "canonical base" and "canonical p" and "path_starts_with p base"
  shows "\<exists>names. components p = components base @ map Normal names \<and> list_all plain_name names"
proof -
  obtain b n rest where b: "components base = RootDir # map Normal b" and n: "components p = RootDir # map Normal n"
    and rest: "components p = components base @ rest"
    using assms by (auto simp: canonical_def starts_with_iff)
  then have "map Normal n = map Normal b @ rest" by simp
  then obtain names where names: "rest = map Normal names"
    by (auto simp: map_eq_append_conv)
  moreover have "plain_name s" if "s \<in> set names" for s
    using that rest names by (auto intro: Normal_components [of s p])
  ultimately show ?thesis using rest by (auto simp: list_all_iff)
qed

end
