(* ===== verification/Proxy.thy ===== *)
theory Proxy
  imports Proxy_Msg Coalesce Paths
begin

text \<open>
  The request handler of \<^verbatim>\<open>src/src/proxy.rs\<close> over the shared application state of
  \<^verbatim>\<open>src/src/lib.rs\<close>. A handler is a sequence of synchronous sections between its await points
  (waiting for a flight's leader, reading the request body, waiting for the origin, polling a
  body); each section is a definition from the state to the state and its result. A section
  reads the clock once, at \<open>now\<close> (\<open>wall\<close> for the system time).
  A value that owns a flight or a refresh guard is a field of a record; where Rust drops the
  value the definition drops the guard.
\<close>

section \<open>Application state\<close>

record app_state =
  ap_metrics :: metrics
  ap_metrics_here :: bool
  ap_cache :: store
  ap_flights :: "flight_key flights"
  ap_origin :: origin_url
  ap_asset_path :: path
  ap_timeout :: duration

type_synonym flight = "flight_key flight_guard"

definition drop_flight :: "flight option \<Rightarrow> app_state \<Rightarrow> app_state" where
  "drop_flight fl app =
     (case fl of None \<Rightarrow> app | Some g \<Rightarrow> app\<lparr>ap_flights := drop_flight_guard (ap_flights app) g\<rparr>)"

definition drop_refresh :: "response_key \<Rightarrow> app_state \<Rightarrow> app_state" where
  "drop_refresh k app = app\<lparr>ap_cache := drop_refresh_guard (ap_cache app) k\<rparr>"

definition count :: "(metrics \<Rightarrow> metrics) \<Rightarrow> app_state \<Rightarrow> app_state" where
  "count f app = app\<lparr>ap_metrics := f (ap_metrics app)\<rparr>"

section \<open>Storing a response while it streams\<close>

record storing =
  sg_limit :: nat
  sg_key :: primary_key
  sg_vary :: vary_key
  sg_storable :: storable_policy
  sg_flight :: "flight option"

definition finish_storing ::
  "moka \<Rightarrow> instant \<Rightarrow> storing \<Rightarrow> status_code \<Rightarrow> fields \<Rightarrow> string \<Rightarrow> app_state \<Rightarrow> app_state" where
  "finish_storing M now sg status headers body app =
     drop_flight (sg_flight sg)
       (app\<lparr>ap_cache := snd (insert_response M (ap_cache app) now (sg_key sg) (sg_vary sg) (sg_storable sg)
          status headers body)\<rparr>)"

text \<open>A body streaming to the client, with what its copy's finish callback has captured.\<close>

record streamed =
  sb_idle :: idle_timeout
  sb_kind :: origin_kind
  sb_tee :: tee
  sb_finish :: "(storing \<times> status_code \<times> fields) option"

datatype response_body = FullBody string | SizedBody nat streamed | StreamingBody streamed

type_synonym response = "response_body http_response"

definition settle ::
  "moka \<Rightarrow> instant \<Rightarrow> (storing \<times> status_code \<times> fields) option \<Rightarrow> copy_event option \<Rightarrow> app_state \<Rightarrow> app_state" where
  "settle M now fin ev app =
     (case (fin, ev) of
        (Some (sg, status, headers), Some (Finished body)) \<Rightarrow> finish_storing M now sg status headers body app
      | (Some (sg, _, _), Some GivenUp) \<Rightarrow> drop_flight (sg_flight sg) app
      | _ \<Rightarrow> app)"

definition poll_streamed ::
  "timer \<Rightarrow> moka \<Rightarrow> instant \<Rightarrow> streamed \<Rightarrow> chunk_poll \<Rightarrow> app_state \<Rightarrow>
   fault + (chunk_poll \<times> streamed \<times> app_state)" where
  "poll_streamed sleep M now sb inner app =
     (case idle_poll sleep (sb_idle sb) now inner of
        Inl f \<Rightarrow> Inl f
      | Inr (item, idle', counted) \<Rightarrow>
          let app1 = (if counted then count (idle_timeout_inc (sb_kind sb)) app else app);
              (out, ev, tee') = tee_poll (sb_tee sb) item
          in Inr (out, sb\<lparr>sb_idle := idle', sb_tee := tee'\<rparr>, settle M now (sb_finish sb) ev app1))"

definition drop_streamed :: "moka \<Rightarrow> instant \<Rightarrow> streamed \<Rightarrow> app_state \<Rightarrow> app_state" where
  "drop_streamed M now sb app = settle M now (sb_finish sb) (fst (tee_give_up (sb_tee sb))) app"

definition store_plan ::
  "http_lib \<Rightarrow> system_time \<Rightarrow> http_request \<Rightarrow> primary_key \<Rightarrow> request_policy \<Rightarrow> head \<Rightarrow> app_state \<Rightarrow>
   storing option \<times> app_state" where
  "store_plan L wall req key policy h app =
     (let status = hd_status h;
          app1 = (if \<not> is_safe L (rq_method req) \<and> (is_success L status \<or> is_redirection L status)
                  then app\<lparr>ap_cache := invalidate (ap_cache app) key\<rparr> else app)
      in (case storable L wall policy (rq_headers req) status (hd_fields h) of
            None \<Rightarrow> (None, app1)
          | Some (sp, vary) \<Rightarrow>
              (Some \<lparr>sg_limit = st_max_entry (ap_cache app1), sg_key = key, sg_vary = vary,
                     sg_storable = sp, sg_flight = None\<rparr>, app1)))"

definition client_response ::
  "http_lib \<Rightarrow> moka \<Rightarrow> instant \<Rightarrow> head \<Rightarrow> idle_timeout \<Rightarrow> storing option \<Rightarrow> app_state \<Rightarrow>
   response \<times> app_state" where
  "client_response L M now h idle store app =
     (let fs = forwardable_fields L h;
          len = content_length L h;
          kept = Option.bind store (\<lambda>sg. if len = None \<or> the len \<le> sg_limit sg then Some sg else None);
          app1 = (if kept = None then drop_flight (Option.bind store sg_flight) app else app);
          fin = map_option (\<lambda>sg. (sg, hd_status h, stored_fields fs)) kept;
          (ev, tee) = tee_new len (map_option (\<lambda>sg. \<lparr>bc_buffer = [], bc_limit = sg_limit sg\<rparr>) kept);
          app2 = settle M now fin ev app1;
          sb = \<lparr>sb_idle = idle, sb_kind = Foreground, sb_tee = tee, sb_finish = fin\<rparr>
      in (\<lparr>rs_status = hd_status h, rs_headers = miss_headers fs,
           rs_body = (case len of Some n \<Rightarrow> SizedBody n sb | None \<Rightarrow> StreamingBody sb)\<rparr>, app2))"

section \<open>Answers from the cache\<close>

definition cached_response :: "stored_response \<Rightarrow> instant \<Rightarrow> string \<Rightarrow> fault + response" where
  "cached_response stored now cache_status =
     (case response_age stored now of
        Inl f \<Rightarrow> Inl f
      | Inr age \<Rightarrow> Inr \<lparr>rs_status = sr_status stored, rs_headers = cached_headers stored age cache_status,
                         rs_body = FullBody (sr_body stored)\<rparr>)"

definition error_response :: "http_lib \<Rightarrow> status_code \<Rightarrow> response" where
  "error_response L status = \<lparr>rs_status = status, rs_headers = [], rs_body = FullBody (error_text L status)\<rparr>"

text \<open>A spawned background revalidation: its guard, its origin request and what it captured.\<close>

record background_task =
  bt_guard :: response_key
  bt_request :: request_parts
  bt_req :: http_request
  bt_key :: primary_key
  bt_entry :: stale_entry

definition path_and_query_of :: "http_request \<Rightarrow> string" where
  "path_and_query_of req = (case rq_path_and_query req of None \<Rightarrow> [] | Some pq \<Rightarrow> pq)"

definition refresh_in_background ::
  "http_lib \<Rightarrow> hyper_lib \<Rightarrow> http_request \<Rightarrow> primary_key \<Rightarrow> stale_entry \<Rightarrow> app_state \<Rightarrow>
   background_task option \<times> app_state" where
  "refresh_in_background L Y req key e app =
     (case start_refresh (ap_cache app) e of
        (None, s) \<Rightarrow> (None, app\<lparr>ap_cache := s\<rparr>)
      | (Some guard, s) \<Rightarrow>
          let app1 = app\<lparr>ap_cache := s\<rparr>
          in (case upstream_request L Y (ap_origin app) req (client_info_from_request L req) (path_and_query_of req) of
                None \<Rightarrow> (None, drop_refresh guard app1)
              | Some (builder, uri) \<Rightarrow>
                  (case with_validators Y (without_preconditions builder) (se_response e) of
                     None \<Rightarrow> (None, drop_refresh guard app1)
                   | Some parts \<Rightarrow>
                       (Some \<lparr>bt_guard = guard, bt_request = parts, bt_req = req, bt_key = key, bt_entry = e\<rparr>,
                        count background_refresh app1))))"

datatype cached = CachedAnswer response | CachedStale stale_entry | CachedNothing

definition while_revalidating ::
  "http_lib \<Rightarrow> hyper_lib \<Rightarrow> instant \<Rightarrow> http_request \<Rightarrow> primary_key \<Rightarrow> request_policy \<Rightarrow> stale_entry \<Rightarrow>
   app_state \<Rightarrow> fault + (cached \<times> background_task option \<times> app_state)" where
  "while_revalidating L Y now req key policy e app =
     (if \<not> may_serve_stale policy \<or> \<not> may_serve_while_revalidating (se_response e) now
      then Inr (CachedStale e, None, app)
      else case cached_response (se_response e) now STALE of
             Inl f \<Rightarrow> Inl f
           | Inr response \<Rightarrow> Inr (CachedAnswer response, refresh_in_background L Y req key e app))"

datatype fresh_use = Hit | Coalesced

fun use_status :: "fresh_use \<Rightarrow> string" where
  "use_status Hit = HIT"
| "use_status Coalesced = COALESCED"

definition from_cache ::
  "http_lib \<Rightarrow> hyper_lib \<Rightarrow> moka \<Rightarrow> instant \<Rightarrow> http_request \<Rightarrow> primary_key \<Rightarrow> request_policy \<Rightarrow> fresh_use \<Rightarrow>
   app_state \<Rightarrow> fault + (cached \<times> background_task option \<times> app_state)" where
  "from_cache L Y M now req key policy use app =
     (if \<not> may_serve policy then Inr (CachedNothing, None, app)
      else case lookup M (ap_cache app) now key (rq_headers req) (max_age policy) of
             Inl f \<Rightarrow> Inl f
           | Inr (Some (Fresh stored)) \<Rightarrow>
               (case cached_response stored now (use_status use) of
                  Inl f \<Rightarrow> Inl f
                | Inr response \<Rightarrow> Inr (CachedAnswer response, None, app))
           | Inr (Some (Stale e)) \<Rightarrow>
               if rq_method req = ''GET'' then while_revalidating L Y now req key policy e app
               else Inr (CachedNothing, None, app)
           | Inr None \<Rightarrow> Inr (CachedNothing, None, app))"

record to_origin =
  to_stale :: "stale_entry option"
  to_flight :: "flight option"

text \<open>Where a request goes next. A request that waits carries the deadline of its wait.\<close>

datatype before = Answer response | Origin to_origin | WaitFor channel instant

text \<open>\<open>Cached::or\<close>: a flight that is not taken to the origin is dropped.\<close>

fun cached_or :: "cached \<Rightarrow> flight option \<Rightarrow> app_state \<Rightarrow> before \<times> app_state" where
  "cached_or (CachedAnswer response) fl app = (Answer response, drop_flight fl app)"
| "cached_or (CachedStale e) fl app = (Origin \<lparr>to_stale = Some e, to_flight = fl\<rparr>, app)"
| "cached_or CachedNothing fl app = (Origin \<lparr>to_stale = None, to_flight = fl\<rparr>, app)"

definition join_flight ::
  "moka \<Rightarrow> instant \<Rightarrow> http_request \<Rightarrow> primary_key \<Rightarrow> request_policy \<Rightarrow> app_state \<Rightarrow> flight_key join \<times> app_state" where
  "join_flight M now req key policy app =
     (if \<not> may_coalesce policy then (Alone, app)
      else case flight_key_of M (ap_cache app) now key (rq_headers req) of
             None \<Rightarrow> (Alone, app)
           | Some k \<Rightarrow>
               (case flights_join (ap_flights app) k (may_lead policy) of
                  (j, f) \<Rightarrow> (j, app\<lparr>ap_flights := f\<rparr>)))"

text \<open>A wait for a leader returns when the leader's guard has dropped, and at the latest when tokio's
  \<open>timeout\<close> of the upstream timeout runs out, which \<open>sleep\<close> tells from the deadline and the clock. (A
  deadline that does not fit in an \<open>Instant\<close> does not panic here: tokio waits for decades instead.)\<close>

definition wait_for_leader :: "timer \<Rightarrow> flight_key flights \<Rightarrow> channel \<Rightarrow> instant \<Rightarrow> instant \<Rightarrow> bool" where
  "wait_for_leader sleep f c deadline now \<longleftrightarrow> wait_returns f c \<or> sleep deadline now"

text \<open>\<open>serve_from_cache\<close> up to its await point, and after the wait for a leader.\<close>

definition serve_from_cache ::
  "http_lib \<Rightarrow> hyper_lib \<Rightarrow> moka \<Rightarrow> instant \<Rightarrow> http_request \<Rightarrow> primary_key \<Rightarrow> request_policy \<Rightarrow>
   app_state \<Rightarrow> fault + (before \<times> background_task option \<times> app_state)" where
  "serve_from_cache L Y M now req key policy app =
     (case from_cache L Y M now req key policy Hit app of
        Inl f \<Rightarrow> Inl f
      | Inr (cached, task, app1) \<Rightarrow>
          (case cached_or cached None app1 of
             (Origin to, app2) \<Rightarrow>
               (case join_flight M now req key policy app2 of
                  (Alone, app3) \<Rightarrow> Inr (Origin to, task, app3)
                | (Follow c, app3) \<Rightarrow> Inr (WaitFor c (now + ap_timeout app3), task, app3)
                | (Lead g, app3) \<Rightarrow>
                    (case from_cache L Y M now req key policy Hit app3 of
                       Inl f \<Rightarrow> Inl f
                     | Inr (cached', task', app4) \<Rightarrow>
                         (case cached_or cached' (Some g) app4 of (b, app5) \<Rightarrow> Inr (b, task', app5))))
           | (answer, app2) \<Rightarrow> Inr (answer, task, app2)))"

definition serve_after_wait ::
  "http_lib \<Rightarrow> hyper_lib \<Rightarrow> moka \<Rightarrow> instant \<Rightarrow> http_request \<Rightarrow> primary_key \<Rightarrow> request_policy \<Rightarrow>
   app_state \<Rightarrow> fault + (before \<times> background_task option \<times> app_state)" where
  "serve_after_wait L Y M now req key policy app =
     (case from_cache L Y M now req key policy Coalesced app of
        Inl f \<Rightarrow> Inl f
      | Inr (cached, task, app1) \<Rightarrow>
          (case cached_or cached None app1 of (b, app2) \<Rightarrow> Inr (b, task, app2)))"

section \<open>The exchange with the origin\<close>

definition ERROR_STATUSES :: "status_code list" where
  "ERROR_STATUSES = [500, 502, 503, 504]"

record origin_exchange =
  xc_req :: http_request
  xc_key :: primary_key
  xc_policy :: request_policy
  xc_stale :: "stale_entry option"
  xc_revalidating :: bool
  xc_flight :: "flight option"

datatype origin_outcome = Responded upstream_response duration | SendFailed | HeadersTimedOut

definition send_to_origin :: "origin_kind \<Rightarrow> origin_outcome \<Rightarrow> app_state \<Rightarrow> app_state" where
  "send_to_origin kind outcome app =
     (case outcome of
        Responded r took \<Rightarrow> count (origin_responded kind (ur_status r) took) app
      | SendFailed \<Rightarrow> count (origin_failed kind OriginError) app
      | HeadersTimedOut \<Rightarrow> count (origin_failed kind OriginTimeout) app)"

definition exchange_may_serve_on_error :: "origin_exchange \<Rightarrow> stale_entry \<Rightarrow> instant \<Rightarrow> bool" where
  "exchange_may_serve_on_error x e now \<longleftrightarrow>
     may_serve_stale (xc_policy x) \<and> may_serve_on_error (se_response e) now"

definition serve_stale :: "stale_entry \<Rightarrow> instant \<Rightarrow> fault + response" where
  "serve_stale e now = cached_response (se_response e) now STALE"

declare serve_stale_def [simp]

definition revalidated ::
  "http_lib \<Rightarrow> moka \<Rightarrow> system_time \<Rightarrow> instant \<Rightarrow> origin_exchange \<Rightarrow> stale_entry \<Rightarrow> head \<Rightarrow> app_state \<Rightarrow>
   fault + (response \<times> app_state)" where
  "revalidated L M wall now x e h app =
     (case freshen L M (ap_cache app) wall now e (xc_policy x) (rq_headers (xc_req x))
             (stored_fields (forwardable_fields L h)) (get (hd_fields h) ''age'') of
        (fresh, s) \<Rightarrow>
          (case cached_response fresh now REVALIDATED of
             Inl f \<Rightarrow> Inl f
           | Inr response \<Rightarrow> Inr (response, drop_flight (xc_flight x) (count revalidation (app\<lparr>ap_cache := s\<rparr>)))))"

definition answered ::
  "http_lib \<Rightarrow> hyper_lib \<Rightarrow> moka \<Rightarrow> system_time \<Rightarrow> instant \<Rightarrow> origin_exchange \<Rightarrow> upstream_response \<Rightarrow>
   app_state \<Rightarrow> fault + (response \<times> app_state)" where
  "answered L Y M wall now x r app =
     (let h = head_from_upstream Y r;
          otherwise =
            (let (store, app1) = store_plan L wall (xc_req x) (xc_key x) (xc_policy x) h app;
                 app2 = count (body_idle_timeouts Foreground) app1;
                 app3 = (if store = None then drop_flight (xc_flight x) app2 else app2);
                 held = map_option (\<lambda>sg. sg\<lparr>sg_flight := xc_flight x\<rparr>) store
             in Inr (client_response L M now h (origin_body (ap_timeout app) now) held app3))
      in (case xc_stale x of
            None \<Rightarrow> otherwise
          | Some e \<Rightarrow>
              if xc_revalidating x \<and> hd_status h = 304 then revalidated L M wall now x e h app
              else if List.member ERROR_STATUSES (hd_status h) \<and> exchange_may_serve_on_error x e now
              then (case serve_stale e now of
                      Inl f \<Rightarrow> Inl f | Inr response \<Rightarrow> Inr (response, drop_flight (xc_flight x) app))
              else otherwise))"

definition failed ::
  "http_lib \<Rightarrow> instant \<Rightarrow> origin_exchange \<Rightarrow> status_code \<Rightarrow> app_state \<Rightarrow> fault + (response \<times> app_state)" where
  "failed L now x status app =
     (case xc_stale x of
        None \<Rightarrow> Inr (error_response L status, drop_flight (xc_flight x) app)
      | Some e \<Rightarrow>
          if exchange_may_serve_on_error x e now
          then (case serve_stale e now of
                  Inl f \<Rightarrow> Inl f | Inr response \<Rightarrow> Inr (response, drop_flight (xc_flight x) app))
          else Inr (error_response L (if must_revalidate (se_response e) then 504 else status),
                    drop_flight (xc_flight x) app))"

section \<open>The handler\<close>

definition origin_request ::
  "request_parts option \<Rightarrow> chunk list \<Rightarrow> nat option \<Rightarrow> status_code + (request_parts \<times> upstream_body)" where
  "origin_request builder payload ch =
     (case request_body payload ch of
        Inl e \<Rightarrow> Inl 400
      | Inr body \<Rightarrow> (case builder of None \<Rightarrow> Inl 500 | Some parts \<Rightarrow> Inr (parts, body)))"

declare origin_request_def [simp]

text \<open>The part of \<open>forward\<close> between the cache and the origin: it builds the exchange and the origin
  request, or answers with an error.\<close>

datatype departure = Refused response | Sent origin_exchange request_parts upstream_body

definition depart ::
  "http_lib \<Rightarrow> hyper_lib \<Rightarrow> http_request \<Rightarrow> primary_key \<Rightarrow> request_policy \<Rightarrow> to_origin \<Rightarrow> chunk list \<Rightarrow>
   nat option \<Rightarrow> app_state \<Rightarrow> departure \<times> app_state" where
  "depart L Y req key policy to payload ch app =
     (let refuse = (\<lambda>status. (Refused (error_response L status), drop_flight (to_flight to) app))
      in (case upstream_request L Y (ap_origin app) req (client_info_from_request L req) (path_and_query_of req) of
            None \<Rightarrow> refuse 500
          | Some (builder, uri) \<Rightarrow>
              let revalidating = (if conditional policy then None else to_stale to);
                  builder' = (case revalidating of
                                Some e \<Rightarrow> with_validators Y builder (se_response e) | None \<Rightarrow> builder);
                  x = \<lparr>xc_req = req, xc_key = key, xc_policy = policy, xc_stale = to_stale to,
                       xc_revalidating = (revalidating \<noteq> None), xc_flight = to_flight to\<rparr>
              in (case origin_request builder' payload ch of
                    Inl status \<Rightarrow> refuse status
                  | Inr (parts, body) \<Rightarrow> (Sent x parts body, app))))"

definition arrive ::
  "http_lib \<Rightarrow> hyper_lib \<Rightarrow> moka \<Rightarrow> system_time \<Rightarrow> instant \<Rightarrow> origin_exchange \<Rightarrow> origin_outcome \<Rightarrow>
   app_state \<Rightarrow> fault + (response \<times> app_state)" where
  "arrive L Y M wall now x outcome app =
     (let app1 = send_to_origin Foreground outcome app
      in (case outcome of
            Responded r took \<Rightarrow> answered L Y M wall now x r app1
          | SendFailed \<Rightarrow> failed L now x 502 app1
          | HeadersTimedOut \<Rightarrow> failed L now x 504 app1))"

definition cache_key_of :: "http_lib \<Rightarrow> http_request \<Rightarrow> primary_key" where
  "cache_key_of L req =
     (let client = client_info_from_request L req
      in primary_key_new (ci_scheme client) (ci_host client) (path_and_query_of req))"

text \<open>The end of \<open>forward_to_upstream\<close>: the response is counted under its cache label.\<close>

definition observe_response :: "request_policy \<Rightarrow> response \<Rightarrow> app_state \<Rightarrow> app_state" where
  "observe_response policy response app =
     (let cache = (if bypasses_cache policy then BYPASS
                   else case cache_label response of Some l \<Rightarrow> l | None \<Rightarrow> MISS)
      in count (observe ProxyRoute cache (rs_status response)) app)"

section \<open>The background revalidation\<close>

record collecting =
  cl_guard :: response_key
  cl_storing :: storing
  cl_status :: status_code
  cl_headers :: fields
  cl_idle :: idle_timeout
  cl_buffer :: string

text \<open>\<open>refresh\<close> up to its body, and the polls of \<open>Limited::collect\<close> on the body.\<close>

definition refresh ::
  "http_lib \<Rightarrow> hyper_lib \<Rightarrow> moka \<Rightarrow> system_time \<Rightarrow> instant \<Rightarrow> background_task \<Rightarrow> upstream_response \<Rightarrow>
   app_state \<Rightarrow> collecting option \<times> app_state" where
  "refresh L Y M wall now t r app =
     (let h = head_from_upstream Y r;
          policy = request_policy_new L (rq_method (bt_req t)) (rq_headers (bt_req t));
          fs = stored_fields (forwardable_fields L h)
      in if hd_status h = 304
         then (None, drop_refresh (bt_guard t) (count revalidation
                (app\<lparr>ap_cache := snd (freshen L M (ap_cache app) wall now (bt_entry t) policy
                   (rq_headers (bt_req t)) fs (get (hd_fields h) ''age''))\<rparr>)))
         else (case store_plan L wall (bt_req t) (bt_key t) policy h app of
                 (None, app1) \<Rightarrow> (None, drop_refresh (bt_guard t) app1)
               | (Some sg, app1) \<Rightarrow>
                   (Some \<lparr>cl_guard = bt_guard t, cl_storing = sg, cl_status = hd_status h, cl_headers = fs,
                          cl_idle = origin_body (ap_timeout app) now, cl_buffer = []\<rparr>,
                    count (body_idle_timeouts Background) app1)))"

definition background_arrive ::
  "http_lib \<Rightarrow> hyper_lib \<Rightarrow> moka \<Rightarrow> system_time \<Rightarrow> instant \<Rightarrow> background_task \<Rightarrow> origin_outcome \<Rightarrow>
   app_state \<Rightarrow> collecting option \<times> app_state" where
  "background_arrive L Y M wall now t outcome app =
     (let app1 = send_to_origin Background outcome app
      in (case outcome of
            Responded r took \<Rightarrow> refresh L Y M wall now t r app1
          | _ \<Rightarrow> (None, drop_refresh (bt_guard t) app1)))"

definition poll_collecting ::
  "hyper_lib \<Rightarrow> timer \<Rightarrow> moka \<Rightarrow> instant \<Rightarrow> collecting \<Rightarrow> chunk_poll \<Rightarrow> app_state \<Rightarrow>
   fault + (collecting option \<times> app_state)" where
  "poll_collecting Y sleep M now cl inner app =
     (case idle_poll sleep (cl_idle cl) now inner of
        Inl f \<Rightarrow> Inl f
      | Inr (item, idle', counted) \<Rightarrow>
          let app1 = (if counted then count (idle_timeout_inc Background) app else app);
              cl1 = cl\<lparr>cl_idle := idle'\<rparr>
          in Inr (case item of
                    Pending \<Rightarrow> (Some cl1, app1)
                  | Ready None \<Rightarrow>
                      (None, drop_refresh (cl_guard cl)
                         (finish_storing M now (cl_storing cl) (cl_status cl) (cl_headers cl) (cl_buffer cl) app1))
                  | Ready (Some (Inl e)) \<Rightarrow> (None, drop_refresh (cl_guard cl) app1)
                  | Ready (Some (Inr chunk)) \<Rightarrow>
                      if limited_ok Y (sg_limit (cl_storing cl)) (length (cl_buffer cl @ chunk))
                      then (Some (cl1\<lparr>cl_buffer := cl_buffer cl @ chunk\<rparr>), app1)
                      else (None, drop_refresh (cl_guard cl) app1)))"

end
