(* ===== verification/Assets.thy ===== *)
theory Assets
  imports Proxy
begin

text \<open>
  Static assets, \<^verbatim>\<open>src/src/assets.rs\<close>. The file system is a parameter that may change between
  two calls: \<open>disk t\<close> is the file system at the moment \<open>t\<close>, and every await of a file operation
  names the moment at which the operation ran. The \<open>sha2\<close>, \<open>hex\<close> and \<open>mime_guess\<close> crates are the
  fields of \<open>asset_lib\<close>.
  \<open>resolve_asset\<close> touches no shared state; \<open>load\<close> has two sections, \<open>load_cached\<close> after the
  metadata arrived and \<open>load_read\<close> after the content arrived, and other handlers may run between
  them. Keys of assets are canonical paths, for which the equality of \<open>PathBuf\<close> is that of the bytes.
  The header values of a response are hex digits in quotes, constants and the text of a \<open>Mime\<close>,
  all of them valid, so that the response builder has no error to report.
\<close>

section \<open>The file system and the crates\<close>

record file_metadata =
  fm_len :: nat
  fm_modified :: "io_error + system_time"

record file_system =
  canonicalize :: "path \<Rightarrow> io_error + path"
  metadata :: "path \<Rightarrow> io_error + file_metadata"
  read :: "path \<Rightarrow> io_error + string"
  contents :: "path \<Rightarrow> string" \<comment> \<open>the bytes of a file, readable or not; no operation returns them\<close>

type_synonym disk = "instant \<Rightarrow> file_system"

record asset_lib =
  sha256_digest :: "string \<Rightarrow> string"
  hex_encode :: "string \<Rightarrow> string"
  mime_of_path :: "string \<Rightarrow> string" \<comment> \<open>\<open>mime_guess::from_path(p).first_or_octet_stream()\<close>\<close>

text \<open>\<open>canonicalize\<close> gives an absolute path without symbolic links, \<open>.\<close> or \<open>..\<close>.\<close>

definition canonicalize_documented :: "disk \<Rightarrow> bool" where
  "canonicalize_documented disk \<longleftrightarrow>
     (\<forall>t p q. canonicalize (disk t) p = Inr q \<longrightarrow> canonical q)"

text \<open>A digest has 32 bytes and its hex form two digits for each byte.\<close>

definition asset_lib_documented :: "asset_lib \<Rightarrow> bool" where
  "asset_lib_documented A \<longleftrightarrow>
     (\<forall>s. length (sha256_digest A s) = 32) \<and>
     (\<forall>s. length (hex_encode A s) = 2 * length s) \<and>
     (\<forall>s. list_all (\<lambda>c. is_ascii_digit c \<or> c \<in> set ''abcdef'') (hex_encode A s))"

text \<open>The stamp of a file is its modified time and length. The modified time of a file never goes back, a
  file with an unchanged stamp is unchanged, and reading gives the contents, of the stamp's length.\<close>

definition file_stamp :: "file_system \<Rightarrow> path \<Rightarrow> (system_time \<times> nat) option" where
  "file_stamp fs p =
     (case metadata fs p of
        Inl e \<Rightarrow> None
      | Inr md \<Rightarrow> (case fm_modified md of Inl e \<Rightarrow> None | Inr m \<Rightarrow> Some (m, fm_len md)))"

definition stamps_documented :: "disk \<Rightarrow> bool" where
  "stamps_documented disk \<longleftrightarrow>
     (\<forall>t p c. read (disk t) p = Inr c \<longrightarrow>
        c = contents (disk t) p \<and> (\<exists>m. file_stamp (disk t) p = Some (m, length c))) \<and>
     (\<forall>t t' p m n m' n'. t \<le> t' \<longrightarrow> file_stamp (disk t) p = Some (m, n) \<longrightarrow>
        file_stamp (disk t') p = Some (m', n') \<longrightarrow> m \<le> m') \<and>
     (\<forall>t t' p st. file_stamp (disk t) p = Some st \<longrightarrow> file_stamp (disk t') p = Some st \<longrightarrow>
        contents (disk t) p = contents (disk t') p)"

section \<open>Resolving a name\<close>

fun relative_of :: "path \<Rightarrow> string list \<Rightarrow> path option" where
  "relative_of relative [] = Some relative"
| "relative_of relative (segment # segments) =
     (case components segment of
        [Normal name] \<Rightarrow> if name = segment then relative_of (path_push relative name) segments else None
      | _ \<Rightarrow> None)"

definition resolve_asset :: "file_system \<Rightarrow> file_system \<Rightarrow> path \<Rightarrow> string \<Rightarrow> path option" where
  "resolve_asset fs1 fs2 root requested =
     (case relative_of [] (split_on slash requested) of
        None \<Rightarrow> None
      | Some relative \<Rightarrow>
          (case canonicalize fs1 root of
             Inl e \<Rightarrow> None
           | Inr root' \<Rightarrow>
               (case canonicalize fs2 (path_push root' relative) of
                  Inl e \<Rightarrow> None
                | Inr resolved \<Rightarrow> if path_starts_with resolved root' then Some resolved else None)))"

section \<open>Loading a file\<close>

datatype loading = Loaded asset string | MustRead system_time

definition load_cached ::
  "file_system \<Rightarrow> moka \<Rightarrow> instant \<Rightarrow> path \<Rightarrow> app_state \<Rightarrow> io_error + loading" where
  "load_cached fs M now p app =
     (case metadata fs p of
        Inl e \<Rightarrow> Inl e
      | Inr md \<Rightarrow>
          (case fm_modified md of
             Inl e \<Rightarrow> Inl e
           | Inr modified \<Rightarrow>
               Inr (case asset_lookup M (ap_cache app) now p of
                      Some a \<Rightarrow> if as_modified a = modified \<and> as_len a = fm_len md then Loaded a HIT
                                else MustRead modified
                    | None \<Rightarrow> MustRead modified)))"

definition asset_etag :: "asset_lib \<Rightarrow> string \<Rightarrow> fault + string" where
  "asset_etag A content =
     (case slice_to 32 (hex_encode A (sha256_digest A content)) of
        Inl f \<Rightarrow> Inl f
      | Inr digits \<Rightarrow> Inr ([CHR 0x22] @ digits @ [CHR 0x22]))"

definition load_read ::
  "asset_lib \<Rightarrow> file_system \<Rightarrow> instant \<Rightarrow> path \<Rightarrow> system_time \<Rightarrow> app_state \<Rightarrow>
   fault + ((io_error + asset \<times> string) \<times> app_state)" where
  "load_read A fs now p modified app =
     (case read fs p of
        Inl e \<Rightarrow> Inr (Inl e, app)
      | Inr content \<Rightarrow>
          (case asset_etag A content of
             Inl f \<Rightarrow> Inl f
           | Inr etag \<Rightarrow>
               (case insert_asset (ap_cache app) now p content etag modified of
                  (a, s) \<Rightarrow> Inr (Inr (a, MISS), app\<lparr>ap_cache := s\<rparr>))))"

section \<open>The response\<close>

type_synonym asset_reply = "string http_response"

definition asset_not_found :: asset_reply where
  "asset_not_found = \<lparr>rs_status = 404, rs_headers = [], rs_body = ''not found''\<rparr>"

definition asset_found ::
  "http_lib \<Rightarrow> asset_lib \<Rightarrow> string \<Rightarrow> http_request \<Rightarrow> asset \<Rightarrow> string \<Rightarrow> asset_reply" where
  "asset_found L A filename req a status =
     (let not_modified = (case Option.bind (get (rq_headers req) ''if-none-match'') (to_str L) of
            None \<Rightarrow> False | Some v \<Rightarrow> v = as_etag a)
      in if not_modified
         then \<lparr>rs_status = 304,
               rs_headers = append_header (append_header [] ''etag'' (as_etag a)) ''x-shadowstep-cache'' status,
               rs_body = []\<rparr>
         else \<lparr>rs_status = 200,
               rs_headers = insert_header (append_header (append_header (append_header []
                   ''etag'' (as_etag a)) ''cache-control'' ''public, max-age=86400'')
                   ''x-shadowstep-cache'' status) ''content-type'' (mime_of_path A filename),
               rs_body = as_content a\<rparr>)"

definition observe_asset :: "asset_reply \<Rightarrow> app_state \<Rightarrow> app_state" where
  "observe_asset response app =
     (let cache = (case cache_label response of Some l \<Rightarrow> l | None \<Rightarrow> BYPASS)
      in count (observe AssetRoute cache (rs_status response)) app)"

section \<open>The handler\<close>

text \<open>The suspended states of \<open>serve_asset\<close>: before the name is resolved, before the metadata of
  the file arrives and before its content arrives. Each carries the moment the request arrived.\<close>

datatype asset_handler =
    AssetArrived instant string http_request
  | AssetLocated instant string http_request path
  | AssetReading instant string http_request path system_time

record asset_answer =
  aa_since :: instant
  aa_until :: instant
  aa_filename :: string
  aa_request :: http_request
  aa_response :: asset_reply

definition asset_reply_at ::
  "instant \<Rightarrow> instant \<Rightarrow> string \<Rightarrow> http_request \<Rightarrow> asset_reply \<Rightarrow> app_state \<Rightarrow>
   app_state \<times> asset_handler list \<times> asset_answer list" where
  "asset_reply_at since until filename req response app =
     (observe_asset response app, [],
      [\<lparr>aa_since = since, aa_until = until, aa_filename = filename, aa_request = req,
        aa_response = response\<rparr>])"

definition serve_located ::
  "disk \<Rightarrow> instant \<Rightarrow> instant \<Rightarrow> instant \<Rightarrow> string \<Rightarrow> http_request \<Rightarrow> app_state \<Rightarrow>
   app_state \<times> asset_handler list \<times> asset_answer list" where
  "serve_located disk t1 t2 since filename req app =
     (case resolve_asset (disk t1) (disk t2) (ap_asset_path app) filename of
        None \<Rightarrow> asset_reply_at since t2 filename req asset_not_found app
      | Some p \<Rightarrow> (app, [AssetLocated since filename req p], []))"

definition serve_stamped ::
  "http_lib \<Rightarrow> asset_lib \<Rightarrow> disk \<Rightarrow> moka \<Rightarrow> instant \<Rightarrow> instant \<Rightarrow> instant \<Rightarrow> string \<Rightarrow> http_request \<Rightarrow> path \<Rightarrow>
   app_state \<Rightarrow> app_state \<times> asset_handler list \<times> asset_answer list" where
  "serve_stamped L A disk M t now since filename req p app =
     (case load_cached (disk t) M now p app of
        Inl e \<Rightarrow> asset_reply_at since t filename req asset_not_found app
      | Inr (Loaded a status) \<Rightarrow> asset_reply_at since t filename req (asset_found L A filename req a status) app
      | Inr (MustRead modified) \<Rightarrow> (app, [AssetReading since filename req p modified], []))"

definition serve_read ::
  "http_lib \<Rightarrow> asset_lib \<Rightarrow> disk \<Rightarrow> instant \<Rightarrow> instant \<Rightarrow> instant \<Rightarrow> string \<Rightarrow> http_request \<Rightarrow> path \<Rightarrow>
   system_time \<Rightarrow> app_state \<Rightarrow> fault + (app_state \<times> asset_handler list \<times> asset_answer list)" where
  "serve_read L A disk t now since filename req p modified app =
     (case load_read A (disk t) now p modified app of
        Inl f \<Rightarrow> Inl f
      | Inr (Inl e, app1) \<Rightarrow> Inr (asset_reply_at since t filename req asset_not_found app1)
      | Inr (Inr (a, status), app1) \<Rightarrow>
          Inr (asset_reply_at since t filename req (asset_found L A filename req a status) app1))"

section \<open>Paths stay below the root\<close>

lemma relative_of_eq:
  "list_all (\<lambda>s. slash \<notin> set s) segments \<Longrightarrow>
   relative_of p segments =
     (if list_all plain_name segments then Some (fold (\<lambda>s r. path_push r s) segments p) else None)"
proof (induction segments arbitrary: p)
  case (Cons s segments)
  then have "components s = [Normal s] \<longleftrightarrow> plain_name s" by (simp add: plain_name_components)
  then show ?case
    using Cons by (auto split: list.split component.split)
qed simp

lemma fold_push:
  assumes "list_all plain_name segments" and "\<not> is_absolute p" and "path_lead p = []"
  shows "components (fold (\<lambda>s r. path_push r s) segments p) = components p @ map Normal segments"
    and "\<not> is_absolute (fold (\<lambda>s r. path_push r s) segments p)"
    and "path_lead (fold (\<lambda>s r. path_push r s) segments p) = []"
  using assms
  by (induction segments arbitrary: p) (simp_all add: components_push_plain push_plain_relative)

lemma split_no_slash: "list_all (\<lambda>s. slash \<notin> set s) (split_on slash requested)"
  by (auto simp: list_all_iff dest: split_on_pieces)

lemma relative_of_requested:
  assumes "relative_of [] (split_on slash requested) = Some relative"
  shows "list_all plain_name (split_on slash requested)"
    and "components (path_push root relative) = components root @ map Normal (split_on slash requested)"
proof -
  have plain: "list_all plain_name (split_on slash requested)"
    and rel: "relative = fold (\<lambda>s r. path_push r s) (split_on slash requested) []"
    using assms relative_of_eq [OF split_no_slash] by (auto split: if_splits)
  have empty: "\<not> is_absolute []" "path_lead [] = []" "components [] = []"
    by (simp_all add: is_absolute_def path_lead_def components_def path_rest_def part_component_def)
  show "list_all plain_name (split_on slash requested)" by (rule plain)
  show "components (path_push root relative) = components root @ map Normal (split_on slash requested)"
    using fold_push [OF plain empty(1,2)] empty(3) components_push [of relative root] rel by simp
qed

lemma resolve_asset_Some:
  assumes "resolve_asset fs1 fs2 root requested = Some p"
  obtains relative root' where "relative_of [] (split_on slash requested) = Some relative"
    and "canonicalize fs1 root = Inr root'" and "canonicalize fs2 (path_push root' relative) = Inr p"
    and "path_starts_with p root'"
  using assms by (auto simp: resolve_asset_def split: option.splits sum.splits if_splits)

text \<open>
  C9. No name that a client sends reaches a file outside the asset root. When \<open>resolve_asset\<close>
  gives a path, every segment of the name is a plain file name (not empty, not \<open>.\<close> or \<open>..\<close>), the
  path handed to the file system is the canonical root followed by exactly those segments, and the
  path that comes back, with all symbolic links resolved, lies below the canonical root and has no
  \<open>..\<close> in it.\<close>

theorem asset_path_contained:
  assumes "canonicalize_documented disk"
    and "resolve_asset (disk t1) (disk t2) root requested = Some p"
  shows "\<exists>root' full names. canonicalize (disk t1) root = Inr root' \<and> canonical root' \<and>
    list_all plain_name (split_on slash requested) \<and>
    components full = components root' @ map Normal (split_on slash requested) \<and>
    canonicalize (disk t2) full = Inr p \<and>
    components p = components root' @ map Normal names \<and> list_all plain_name names"
proof -
  obtain relative root' where rel: "relative_of [] (split_on slash requested) = Some relative"
    and c1: "canonicalize (disk t1) root = Inr root'"
    and c2: "canonicalize (disk t2) (path_push root' relative) = Inr p" and below: "path_starts_with p root'"
    using assms(2) by (rule resolve_asset_Some)
  have "canonical root'" "canonical p"
    using assms(1) c1 c2 unfolding canonicalize_documented_def by blast+
  then show ?thesis
    using canonical_below [OF _ _ below] relative_of_requested [OF rel] c1 c2 by blast
qed

section \<open>An example file system\<close>

text \<open>One file below the root, edited at the moment 10.\<close>

definition example_file :: path where
  "example_file = ''/app/assets/a.css''"

definition example_content :: "instant \<Rightarrow> string" where
  "example_content t = (if t < 10 then ''body{}'' else ''body{margin:0}'')"

definition example_disk :: disk where
  "example_disk t =
     \<lparr>canonicalize = (\<lambda>p. if p = ''/app/assets'' \<or> p = example_file then Inr p else Inl (OsError 2)),
      metadata = (\<lambda>p. if p = example_file
        then Inr \<lparr>fm_len = length (example_content t), fm_modified = Inr (if t < 10 then 1 else 2)\<rparr>
        else Inl (OsError 2)),
      read = (\<lambda>p. if p = example_file then Inr (example_content t) else Inl (OsError 2)),
      contents = (\<lambda>p. if p = example_file then example_content t else [])\<rparr>"

definition hex_digit :: "nat \<Rightarrow> char" where
  "hex_digit n = ''0123456789abcdef'' ! n"

text \<open>A stand-in for the digest with the documented length.\<close>

definition example_assets :: asset_lib where
  "example_assets =
     \<lparr>sha256_digest = (\<lambda>s. take 32 (s @ replicate 32 (CHR ''0''))),
      hex_encode = (\<lambda>s. concat (map (\<lambda>c. [hex_digit (code c div 16), hex_digit (code c mod 16)]) s)),
      mime_of_path = (\<lambda>p. ''text/css'')\<rparr>"

lemma hex_digit_range: "n < 16 \<Longrightarrow> is_ascii_digit (hex_digit n) \<or> hex_digit n \<in> set ''abcdef''"
proof -
  assume "n < 16"
  then have "n \<in> set [0..<16]" by simp
  moreover have "list_all (\<lambda>n. is_ascii_digit (hex_digit n) \<or> hex_digit n \<in> set ''abcdef'') [0..<16]"
    by code_simp
  ultimately show ?thesis by (simp only: list_all_iff)
qed

lemma example_assets_documented: "asset_lib_documented example_assets"
proof -
  have code: "code c div 16 < (16 :: nat)" "code c mod 16 < (16 :: nat)" for c
    using nat_of_char_less_256 [of c] by (auto simp: less_mult_imp_div_less)
  have "length (concat (map (\<lambda>c. [hex_digit (code c div 16), hex_digit (code c mod 16)]) s)) = 2 * length s" for s
    by (induction s) simp_all
  moreover have "list_all (\<lambda>c. is_ascii_digit c \<or> c \<in> set ''abcdef'')
      (concat (map (\<lambda>c. [hex_digit (code c div 16), hex_digit (code c mod 16)]) s))" for s
    using hex_digit_range [OF code(1)] hex_digit_range [OF code(2)] by (induction s) (simp_all del: list.set)
  ultimately show ?thesis by (simp add: asset_lib_documented_def example_assets_def min_def)
qed

lemma example_disk_documented: "canonicalize_documented example_disk" "stamps_documented example_disk"
proof -
  have "components ''/app/assets'' = RootDir # map Normal [''app'', ''assets'']"
    "components example_file = RootDir # map Normal [''app'', ''assets'', ''a.css'']"
    by code_simp+
  then have "canonical ''/app/assets''" "canonical example_file"
    unfolding canonical_def by blast+
  then show "canonicalize_documented example_disk"
    by (auto simp: canonicalize_documented_def example_disk_def split: if_splits)
  show "stamps_documented example_disk"
    by (auto simp: stamps_documented_def example_disk_def file_stamp_def example_content_def split: if_splits)
qed

lemma example_resolved:
  "resolve_asset (example_disk 1) (example_disk 2) ''/app/assets'' ''a.css'' = Some example_file"
  by code_simp

theorem asset_path_contained_witness:
  "\<exists>root' full names. canonicalize (example_disk 1) ''/app/assets'' = Inr root' \<and> canonical root' \<and>
    list_all plain_name (split_on slash ''a.css'') \<and>
    components full = components root' @ map Normal (split_on slash ''a.css'') \<and>
    canonicalize (example_disk 2) full = Inr example_file \<and>
    components example_file = components root' @ map Normal names \<and> list_all plain_name names"
  by (rule asset_path_contained [OF example_disk_documented(1) example_resolved])

lemma asset_etag_total:
  assumes "asset_lib_documented A"
  shows "\<exists>etag. asset_etag A content = Inr etag \<and> length etag = 34"
proof -
  define h where "h = hex_encode A (sha256_digest A content)"
  have len: "length h = 64" using assms by (simp add: asset_lib_documented_def h_def)
  have "h ! 32 \<in> set h" using len by simp
  then have "is_ascii_digit (h ! 32) \<or> h ! 32 \<in> set ''abcdef''"
    using assms unfolding asset_lib_documented_def h_def list_all_iff by blast
  then have "code (h ! 32) < (128 :: nat)" by (auto simp: is_ascii_digit_def)
  then show ?thesis using len by (simp add: asset_etag_def slice_to_def char_boundary_def flip: h_def)
qed

end
