(* ===== verification/App.thy ===== *)
theory App
  imports Assets
begin

text \<open>
  The program around the handlers: the configuration (\<^verbatim>\<open>src/src/config.rs\<close>), the endpoints, the shared
  state and the routes (\<^verbatim>\<open>src/src/lib.rs\<close>), the listeners (\<^verbatim>\<open>src/src/tls.rs\<close>) and the start of the
  process (\<^verbatim>\<open>src/src/main.rs\<close>).
  clap, rustls, the url crate, the sockets of the operating system and actix-web are third-party
  code: what they answer is a field of the records \<open>clap\<close>, \<open>start_lib\<close> and \<open>tls_lib\<close>, or the argument
  \<open>matches\<close> of the router. The model of a running server is what it was built from.
\<close>

section \<open>Configuration\<close>

record config =
  cf_origin_url :: string
  cf_listen_addr :: string
  cf_asset_path :: path
  cf_cache_ttl_seconds :: nat
  cf_cache_size_mb :: nat
  cf_tls_cert_path :: "path option"
  cf_tls_key_path :: "path option"
  cf_tls_listen_addr :: string
  cf_upstream_timeout_seconds :: nat
  cf_metrics_addr :: "string option"

text \<open>The values that clap took from the command line or the environment, by environment name. A
  missing required value ends the process, here \<open>None\<close>.\<close>

record clap =
  given_text :: "string \<Rightarrow> string option"
  given_u64 :: "string \<Rightarrow> nat option"

definition text_or :: "clap \<Rightarrow> string \<Rightarrow> string \<Rightarrow> string" where
  "text_or C name other = (case given_text C name of Some v \<Rightarrow> v | None \<Rightarrow> other)"

definition u64_or :: "clap \<Rightarrow> string \<Rightarrow> nat \<Rightarrow> nat" where
  "u64_or C name other = (case given_u64 C name of Some v \<Rightarrow> v | None \<Rightarrow> other)"

definition config_load :: "clap \<Rightarrow> config option" where
  "config_load C =
     (case given_text C ''ORIGIN_URL'' of
        None \<Rightarrow> None
      | Some origin \<Rightarrow> Some
          \<lparr>cf_origin_url = origin,
           cf_listen_addr = text_or C ''LISTEN_ADDR'' ''0.0.0.0:8080'',
           cf_asset_path = text_or C ''ASSET_PATH'' ''/app/assets'',
           cf_cache_ttl_seconds = u64_or C ''CACHE_TTL_SECONDS'' 300,
           cf_cache_size_mb = u64_or C ''CACHE_SIZE_MB'' 100,
           cf_tls_cert_path = given_text C ''TLS_CERT_PATH'',
           cf_tls_key_path = given_text C ''TLS_KEY_PATH'',
           cf_tls_listen_addr = text_or C ''TLS_LISTEN_ADDR'' ''0.0.0.0:8443'',
           cf_upstream_timeout_seconds = u64_or C ''UPSTREAM_TIMEOUT_SECONDS'' 30,
           cf_metrics_addr = given_text C ''METRICS_ADDR''\<rparr>)"

definition is_tls_enabled :: "config \<Rightarrow> bool" where
  "is_tls_enabled config \<longleftrightarrow> cf_tls_cert_path config \<noteq> None \<and> cf_tls_key_path config \<noteq> None"

section \<open>Health and metrics\<close>

text \<open>The hit ratio is the quotient of two 64-bit counts as floating point numbers, or 0; the model keeps
  the two counts.\<close>

datatype hit_ratio = NoRequests | Quotient "64 word" "64 word"

datatype json =
    JsonText string
  | JsonCount "64 word"
  | JsonSize nat
  | JsonRatio hit_ratio
  | JsonObject "(string \<times> json) list"

definition health_check ::
  "prom_lib \<Rightarrow> moka \<Rightarrow> instant \<Rightarrow> app_state \<Rightarrow> json http_response \<times> app_state" where
  "health_check P M now app =
     (let (counts, m) = cache_counts_of P (ap_metrics app);
          from_cache = cc_hits counts + cc_revalidations counts + cc_stale counts + cc_coalesced counts;
          total = from_cache + cc_misses counts;
          (items, s1) = entry_count M (ap_cache app) now;
          (bytes, s2) = weighted_size M s1 now
      in (\<lparr>rs_status = 200, rs_headers = [(''content-type'', ''application/json'')],
           rs_body = JsonObject
             [(''status'', JsonText ''ok''),
              (''cache'', JsonObject
                [(''hits'', JsonCount (cc_hits counts)),
                 (''misses'', JsonCount (cc_misses counts)),
                 (''revalidations'', JsonCount (cc_revalidations counts)),
                 (''stale'', JsonCount (cc_stale counts)),
                 (''coalesced'', JsonCount (cc_coalesced counts)),
                 (''background_refreshes'', JsonCount (cc_background_refreshes counts)),
                 (''items'', JsonSize items),
                 (''bytes'', JsonSize bytes),
                 (''hit_ratio'', JsonRatio (if 0 < total then Quotient from_cache total else NoRequests))])]\<rparr>,
          app\<lparr>ap_metrics := m, ap_cache := s2\<rparr>))"

definition CONTENT_TYPE :: string where
  "CONTENT_TYPE = ''text/plain; version=0.0.4; charset=utf-8''"

definition metrics_endpoint ::
  "(metrics \<Rightarrow> string) \<Rightarrow> moka \<Rightarrow> instant \<Rightarrow> app_state \<Rightarrow> string http_response \<times> app_state" where
  "metrics_endpoint print M now app =
     (case encode print M (ap_metrics app) (ap_cache app) now of
        (text, m, s) \<Rightarrow>
          (\<lparr>rs_status = 200, rs_headers = [(''content-type'', CONTENT_TYPE)], rs_body = text\<rparr>,
           app\<lparr>ap_metrics := m, ap_cache := s\<rparr>))"

section \<open>The shared state\<close>

record ('l, 'c) start_lib =
  create_dir_all :: "path \<Rightarrow> io_error option"
  native_roots :: "io_error option" \<comment> \<open>\<open>with_provider_and_native_roots\<close>\<close>
  url_parse :: "string \<Rightarrow> string + origin_url"
  tcp_bind :: "string list \<Rightarrow> string \<Rightarrow> io_error + 'l" \<comment> \<open>after these addresses were bound\<close>
  server_listen :: "'l \<Rightarrow> io_error option"
  server_listen_rustls :: "'l \<Rightarrow> 'c \<Rightarrow> io_error option"
  available_parallelism :: "io_error + nat"

datatype start_failure = StartError io_error | StartPanic register_panic

definition build_state :: "('l, 'c) start_lib \<Rightarrow> prom_lib \<Rightarrow> config \<Rightarrow> start_failure + app_state" where
  "build_state S P config =
     (case create_dir_all S (cf_asset_path config) of
        Some e \<Rightarrow> Inl (StartError e)
      | None \<Rightarrow>
          (case native_roots S of
             Some e \<Rightarrow> Inl (StartError e)
           | None \<Rightarrow>
               (case url_parse S (cf_origin_url config) of
                  Inl e \<Rightarrow> Inl (StartError (InvalidInput (''Failed to parse ORIGIN_URL from config: '' @ e)))
                | Inr url \<Rightarrow>
                    (case metrics_new P of
                       Inl p \<Rightarrow> Inl (StartPanic p)
                     | Inr m \<Rightarrow> Inr
                         \<lparr>ap_metrics = m,
                          ap_metrics_here = (cf_metrics_addr config = None),
                          ap_cache = store_new (cf_cache_size_mb config) (from_secs (cf_cache_ttl_seconds config)),
                          ap_flights = flights_default,
                          ap_origin = url,
                          ap_asset_path = cf_asset_path config,
                          ap_timeout = from_secs (cf_upstream_timeout_seconds config)\<rparr>))))"

section \<open>Routes\<close>

datatype endpoint = HealthCheck | MetricsEndpoint | ServeAsset | ForwardToUpstream

record route_entry =
  re_method :: "http_method option" \<comment> \<open>the guard of the service\<close>
  re_pattern :: string
  re_endpoint :: endpoint

definition health_route :: route_entry where
  "health_route = \<lparr>re_method = Some ''GET'', re_pattern = ''/health'', re_endpoint = HealthCheck\<rparr>"

definition metrics_route :: route_entry where
  "metrics_route = \<lparr>re_method = Some ''GET'', re_pattern = ''/metrics'', re_endpoint = MetricsEndpoint\<rparr>"

definition asset_route :: route_entry where
  "asset_route = \<lparr>re_method = Some ''GET'', re_pattern = ''/assets/{filename:.*}'', re_endpoint = ServeAsset\<rparr>"

definition app_routes :: "app_state \<Rightarrow> route_entry list" where
  "app_routes app =
     [health_route] @ (if ap_metrics_here app then [metrics_route] else []) @
     [asset_route, \<lparr>re_method = None, re_pattern = ''/{path:.*}'', re_endpoint = ForwardToUpstream\<rparr>]"

text \<open>The router gives a request to the first service whose pattern and guard match; a request that
  none matches is answered 404, here \<open>None\<close>.\<close>

definition dispatch ::
  "(string \<Rightarrow> string \<Rightarrow> bool) \<Rightarrow> route_entry list \<Rightarrow> http_method \<Rightarrow> string \<Rightarrow> endpoint option" where
  "dispatch matches routes method p =
     map_option re_endpoint
       (find (\<lambda>r. matches (re_pattern r) p \<and> (re_method r = None \<or> re_method r = Some method)) routes)"

text \<open>A pattern without variables matches itself; a tail variable matches whatever follows its prefix.\<close>

definition starts_with :: "string \<Rightarrow> string \<Rightarrow> bool" where
  "starts_with s pre \<longleftrightarrow> take (length pre) s = pre"

definition router_documented :: "(string \<Rightarrow> string \<Rightarrow> bool) \<Rightarrow> bool" where
  "router_documented matches \<longleftrightarrow>
     (\<forall>pattern p. CHR ''{'' \<notin> set pattern \<longrightarrow> matches pattern p = (p = pattern)) \<and>
     (\<forall>pre name p. CHR ''{'' \<notin> set pre \<longrightarrow> CHR ''}'' \<notin> set name \<longrightarrow> CHR '':'' \<notin> set name \<longrightarrow>
        matches (pre @ ''{'' @ name @ '':.*}'') p = starts_with p pre)"

section \<open>Listeners\<close>

datatype pem_error = NoItemsFound | OtherPemError

record 'c tls_lib =
  file_open :: "path \<Rightarrow> io_error + string"
  pem_certs :: "string \<Rightarrow> pem_error + string list" \<comment> \<open>\<open>CertificateDer::pem_reader_iter\<close>, collected\<close>
  pem_key :: "string \<Rightarrow> pem_error + string" \<comment> \<open>\<open>PrivateKeyDer::from_pem_reader\<close>\<close>
  default_versions :: "string option" \<comment> \<open>an error of \<open>with_safe_default_protocol_versions\<close>\<close>
  single_cert :: "string list \<Rightarrow> string \<Rightarrow> string + 'c" \<comment> \<open>\<open>with_single_cert\<close>\<close>

definition load_rustls_config :: "'c tls_lib \<Rightarrow> path \<Rightarrow> path \<Rightarrow> io_error + 'c" where
  "load_rustls_config T cert_path key_path =
     (case file_open T cert_path of
        Inl e \<Rightarrow> Inl e
      | Inr cert_file \<Rightarrow>
          (case pem_certs T cert_file of
             Inl e \<Rightarrow> Inl (InvalidInput ''invalid cert'')
           | Inr cert_chain \<Rightarrow>
               (case file_open T key_path of
                  Inl e \<Rightarrow> Inl e
                | Inr key_file \<Rightarrow>
                    (case pem_key T key_file of
                       Inl NoItemsFound \<Rightarrow> Inl (InvalidInput ''No private keys found'')
                     | Inl OtherPemError \<Rightarrow> Inl (InvalidInput ''invalid key'')
                     | Inr key \<Rightarrow>
                         (case default_versions T of
                            Some e \<Rightarrow> Inl (InvalidInput e)
                          | None \<Rightarrow>
                              (case single_cert T cert_chain key of
                                 Inl e \<Rightarrow> Inl (InvalidInput e)
                               | Inr c \<Rightarrow> Inr c))))))"

definition bind_listeners ::
  "('l, 'c) start_lib \<Rightarrow> 'c tls_lib \<Rightarrow> config \<Rightarrow> io_error + ('l \<times> ('l \<times> 'c) option)" where
  "bind_listeners S T config =
     (case tcp_bind S [] (cf_listen_addr config) of
        Inl e \<Rightarrow> Inl e
      | Inr http \<Rightarrow>
          (case (cf_tls_cert_path config, cf_tls_key_path config) of
             (Some cert_path, Some key_path) \<Rightarrow>
               (case load_rustls_config T cert_path key_path of
                  Inl e \<Rightarrow> Inl e
                | Inr tls_config \<Rightarrow>
                    (case tcp_bind S [cf_listen_addr config] (cf_tls_listen_addr config) of
                       Inl e \<Rightarrow> Inl e
                     | Inr listener \<Rightarrow> Inr (http, Some (listener, tls_config))))
           | _ \<Rightarrow> Inr (http, None)))"

section \<open>The servers\<close>

record ('l, 'c) server =
  sv_routes :: "route_entry list"
  sv_keep_alive :: "duration option" \<comment> \<open>where the source sets one\<close>
  sv_workers :: nat
  sv_http :: 'l
  sv_tls :: "('l \<times> 'c) option"

definition run_server ::
  "('l, 'c) start_lib \<Rightarrow> app_state \<Rightarrow> 'l \<Rightarrow> ('l \<times> 'c) option \<Rightarrow> nat \<Rightarrow> io_error + ('l, 'c) server" where
  "run_server S app http tls workers =
     (case server_listen S http of
        Some e \<Rightarrow> Inl e
      | None \<Rightarrow>
          (case Option.bind tls (\<lambda>(listener, tls_config). server_listen_rustls S listener tls_config) of
             Some e \<Rightarrow> Inl e
           | None \<Rightarrow> Inr \<lparr>sv_routes = app_routes app, sv_keep_alive = Some (from_secs 75),
                          sv_workers = workers, sv_http = http, sv_tls = tls\<rparr>))"

definition run_metrics :: "('l, 'c) start_lib \<Rightarrow> app_state \<Rightarrow> 'l \<Rightarrow> io_error + ('l, 'c) server" where
  "run_metrics S app listener =
     (case server_listen S listener of
        Some e \<Rightarrow> Inl e
      | None \<Rightarrow> Inr \<lparr>sv_routes = [metrics_route], sv_keep_alive = None, sv_workers = 1,
                     sv_http = listener, sv_tls = None\<rparr>)"

definition bound_addresses :: "config \<Rightarrow> string list" where
  "bound_addresses config =
     cf_listen_addr config # (if is_tls_enabled config then [cf_tls_listen_addr config] else [])"

text \<open>\<open>main\<close> up to the point where the servers run: the servers it waits for, or why it ends.\<close>

definition main_start ::
  "('l, 'c) start_lib \<Rightarrow> 'c tls_lib \<Rightarrow> prom_lib \<Rightarrow> config \<Rightarrow>
   start_failure + (app_state \<times> ('l, 'c) server \<times> ('l, 'c) server option)" where
  "main_start S T P config =
     (case build_state S P config of
        Inl e \<Rightarrow> Inl e
      | Inr app \<Rightarrow>
          let num_workers = (case available_parallelism S of Inl e \<Rightarrow> 1 | Inr n \<Rightarrow> n)
          in (case bind_listeners S T config of
                Inl e \<Rightarrow> Inl (StartError e)
              | Inr (http, tls) \<Rightarrow>
                  (case run_server S app http tls num_workers of
                     Inl e \<Rightarrow> Inl (StartError e)
                   | Inr proxy \<Rightarrow>
                       (case cf_metrics_addr config of
                          None \<Rightarrow> Inr (app, proxy, None)
                        | Some metrics_addr \<Rightarrow>
                            (case tcp_bind S (bound_addresses config) metrics_addr of
                               Inl e \<Rightarrow> Inl (StartError e)
                             | Inr listener \<Rightarrow>
                                 (case run_metrics S app listener of
                                    Inl e \<Rightarrow> Inl (StartError e)
                                  | Inr metrics \<Rightarrow> Inr (app, proxy, Some metrics)))))))"

section \<open>Routing\<close>

lemma matches_simps:
  assumes "router_documented matches"
  shows "matches ''/health'' p \<longleftrightarrow> p = ''/health''" and "matches ''/metrics'' p \<longleftrightarrow> p = ''/metrics''"
    and "matches ''/assets/{filename:.*}'' p \<longleftrightarrow> starts_with p ''/assets/''"
    and "matches ''/{path:.*}'' p \<longleftrightarrow> starts_with p ''/''"
proof -
  have exact: "CHR ''{'' \<notin> set pattern \<Longrightarrow> matches pattern p \<longleftrightarrow> p = pattern" for pattern
    using assms unfolding router_documented_def by blast
  have tail: "CHR ''{'' \<notin> set pre \<Longrightarrow> CHR ''}'' \<notin> set name \<Longrightarrow> CHR '':'' \<notin> set name \<Longrightarrow>
      matches (pre @ ''{'' @ name @ '':.*}'') p \<longleftrightarrow> starts_with p pre" for pre name
    using assms unfolding router_documented_def by blast
  show "matches ''/health'' p \<longleftrightarrow> p = ''/health''" "matches ''/metrics'' p \<longleftrightarrow> p = ''/metrics''"
    by (rule exact; simp)+
  show "matches ''/assets/{filename:.*}'' p \<longleftrightarrow> starts_with p ''/assets/''"
    using tail [of "''/assets/''" "''filename''"] by simp
  show "matches ''/{path:.*}'' p \<longleftrightarrow> starts_with p ''/''"
    using tail [of "''/''" "''path''"] by simp
qed


text \<open>A router with the documented behaviour, for evaluating examples.\<close>

definition split_pattern :: "string \<Rightarrow> string \<times> string" where
  "split_pattern pattern = (takeWhile (\<lambda>c. c \<noteq> CHR ''{'') pattern, dropWhile (\<lambda>c. c \<noteq> CHR ''{'') pattern)"

definition router_example :: "string \<Rightarrow> string \<Rightarrow> bool" where
  "router_example pattern p =
     (case split_pattern pattern of (pre, rest) \<Rightarrow> if rest = [] then p = pattern else starts_with p pre)"

lemma router_example_documented: "router_documented router_example"
proof -
  have "router_example pattern p \<longleftrightarrow> p = pattern" if "CHR ''{'' \<notin> set pattern" for pattern p
  proof -
    have "takeWhile (\<lambda>c. c \<noteq> CHR ''{'') pattern = pattern" "dropWhile (\<lambda>c. c \<noteq> CHR ''{'') pattern = []"
      using that by (auto simp: takeWhile_eq_all_conv)
    then show ?thesis by (simp add: router_example_def split_pattern_def)
  qed
  moreover have "router_example (pre @ ''{'' @ name @ '':.*}'') p \<longleftrightarrow> starts_with p pre"
    if "CHR ''{'' \<notin> set pre" for pre name p
  proof -
    have "takeWhile (\<lambda>c. c \<noteq> CHR ''{'') (pre @ CHR ''{'' # name @ '':.*}'') = pre"
      "dropWhile (\<lambda>c. c \<noteq> CHR ''{'') (pre @ CHR ''{'' # name @ '':.*}'') = CHR ''{'' # name @ '':.*}''"
      using that by (induction pre) auto
    then show ?thesis by (simp add: router_example_def split_pattern_def)
  qed
  ultimately show ?thesis unfolding router_documented_def by blast
qed

section \<open>An example of a start\<close>

definition example_start :: "(string, string) start_lib" where
  "example_start =
     \<lparr>create_dir_all = (\<lambda>_. None), native_roots = None,
      url_parse = (\<lambda>s. if s = [] then Inl ''relative URL without a base''
        else Inr \<lparr>ou_after_path = s, ou_host_str = Some ''origin'', ou_port = Some 80\<rparr>),
      tcp_bind = (\<lambda>bound a. if a \<in> set bound then Inl (OsError 98) else Inr a),
      server_listen = (\<lambda>_. None), server_listen_rustls = (\<lambda>_ _. None), available_parallelism = Inr 4\<rparr>"

definition example_tls :: "string tls_lib" where
  "example_tls =
     \<lparr>file_open = (\<lambda>p. Inr p), pem_certs = (\<lambda>s. Inr [s]),
      pem_key = (\<lambda>s. if s = [] then Inl NoItemsFound else Inr s),
      default_versions = None, single_cert = (\<lambda>chain key. Inr key)\<rparr>"

definition example_clap :: clap where
  "example_clap =
     \<lparr>given_text = map_of [(''ORIGIN_URL'', ''http://origin''), (''TLS_CERT_PATH'', ''/tls/cert''),
        (''TLS_KEY_PATH'', ''/tls/key''), (''METRICS_ADDR'', ''127.0.0.1:9090'')],
      given_u64 = map_of [(''CACHE_SIZE_MB'', 1)]\<rparr>"

definition example_config :: config where
  "example_config = the (config_load example_clap)"

definition example_main :: "start_failure + (app_state \<times> (string, string) server \<times> (string, string) server option)" where
  "example_main = main_start example_start example_tls prom_example example_config"

lemma projr_triple: "\<not> isl r \<Longrightarrow> snd (snd (projr r)) \<noteq> None \<Longrightarrow> \<exists>a b c. r = Inr (a, b, Some c)"
  by (cases r) auto

lemma example_main_runs: "\<exists>app proxy metrics. example_main = Inr (app, proxy, Some metrics)"
proof -
  have "\<not> isl example_main" by code_simp
  moreover have "snd (snd (projr example_main)) \<noteq> None" by code_simp
  ultimately show ?thesis by (rule projr_triple)
qed

definition started_app :: app_state where
  "started_app = fst (projr example_main)"


end
