(* ===== verification/Proxy_Cases.thy ===== *)
theory Proxy_Cases
  imports Proxy
begin

text \<open>
  Case rules for the sections of the proxy's handler: the ways in which \<open>from_cache\<close>,
  \<open>serve_from_cache\<close> and \<open>answered\<close> return, for the proofs that follow every branch.
\<close>

lemma from_cache_cases:
  assumes "from_cache L Y M now req key policy use app = Inr (c, task, app1)"
  obtains (nothing_found) "c = CachedNothing" "task = None" "app1 = app"
  | (fresh_found) stored r where "may_serve policy"
      "lookup M (ap_cache app) now key (rq_headers req) (max_age policy) = Inr (Some (Fresh stored))"
      "cached_response stored now (use_status use) = Inr r" "c = CachedAnswer r" "task = None" "app1 = app"
  | (stale_found) e where "may_serve policy" "rq_method req = ''GET''"
      "lookup M (ap_cache app) now key (rq_headers req) (max_age policy) = Inr (Some (Stale e))"
      "while_revalidating L Y now req key policy e app = Inr (c, task, app1)"
  using assms
  by (auto simp: from_cache_def split: if_splits sum.splits option.splits lookup_result.splits)

lemma serve_from_cache_cases:
  assumes "serve_from_cache L Y M now req key policy app = Inr (b, task, app1)"
  obtains (answer) c app2 r where "from_cache L Y M now req key policy Hit app = Inr (c, task, app2)"
      "cached_or c None app2 = (Answer r, app1)" "b = Answer r"
  | (alone) c app2 to app3 where "from_cache L Y M now req key policy Hit app = Inr (c, task, app2)"
      "cached_or c None app2 = (Origin to, app3)" "join_flight M now req key policy app3 = (Alone, app1)" "b = Origin to"
  | (follow) c app2 to app3 ch where "from_cache L Y M now req key policy Hit app = Inr (c, task, app2)"
      "cached_or c None app2 = (Origin to, app3)" "join_flight M now req key policy app3 = (Follow ch, app1)"
      "b = WaitFor ch (now + ap_timeout app1)"
  | (lead) c task1 app2 to app3 g app4 c' app5
    where "from_cache L Y M now req key policy Hit app = Inr (c, task1, app2)"
      "cached_or c None app2 = (Origin to, app3)" "join_flight M now req key policy app3 = (Lead g, app4)"
      "from_cache L Y M now req key policy Hit app4 = Inr (c', task, app5)" "cached_or c' (Some g) app5 = (b, app1)"
proof -
  obtain c task1 app2 where c: "from_cache L Y M now req key policy Hit app = Inr (c, task1, app2)"
    using assms by (auto simp: serve_from_cache_def split: sum.splits)
  obtain b1 app3 where b1: "cached_or c None app2 = (b1, app3)" by force
  show ?thesis
  proof (cases b1)
    case (Answer r)
    then have "b = Answer r \<and> task1 = task \<and> app3 = app1"
      using assms c b1 by (simp add: serve_from_cache_def)
    then show ?thesis using answer c b1 Answer by blast
  next
    case (WaitFor ch deadline)
    then show ?thesis using b1 by (cases c) auto
  next
    case (Origin to)
    obtain j app4 where j: "join_flight M now req key policy app3 = (j, app4)" by force
    show ?thesis
    proof (cases j)
      case Alone
      then have "b = Origin to \<and> task1 = task \<and> app4 = app1"
        using assms c b1 Origin j by (simp add: serve_from_cache_def)
      then show ?thesis using alone c b1 Origin j Alone by blast
    next
      case (Follow ch)
      have "b = WaitFor ch (now + ap_timeout app4)" "task1 = task" "app4 = app1"
        using assms c b1 Origin j Follow by (auto simp: serve_from_cache_def)
      with c b1 Origin j Follow show ?thesis by (intro follow [of c app2 to app3 ch]) simp_all
    next
      case (Lead g)
      then obtain c' app5 where "from_cache L Y M now req key policy Hit app4 = Inr (c', task, app5)"
        "cached_or c' (Some g) app5 = (b, app1)"
        using assms c b1 Origin j by (auto simp: serve_from_cache_def split: sum.splits prod.splits)
      then show ?thesis using lead c b1 Origin j Lead by blast
    qed
  qed
qed

definition forwarded_app :: "origin_exchange \<Rightarrow> storing option \<Rightarrow> app_state \<Rightarrow> app_state" where
  "forwarded_app x store app =
     (if store = None then drop_flight (xc_flight x) (count (body_idle_timeouts Foreground) app)
      else count (body_idle_timeouts Foreground) app)"

definition held_storing :: "origin_exchange \<Rightarrow> storing option \<Rightarrow> storing option" where
  "held_storing x store = map_option (\<lambda>sg. sg\<lparr>sg_flight := xc_flight x\<rparr>) store"

lemma answered_cases:
  assumes "answered L Y M wall now x r app = Inr (response, app1)"
  obtains (stale_served) e where "xc_stale x = Some e" "serve_stale e now = Inr response"
      "app1 = drop_flight (xc_flight x) app"
  | (freshened) e where "xc_stale x = Some e"
      "revalidated L M wall now x e (head_from_upstream Y r) app = Inr (response, app1)"
  | (forwarded) store app2
    where "store_plan L wall (xc_req x) (xc_key x) (xc_policy x) (head_from_upstream Y r) app = (store, app2)"
      "client_response L M now (head_from_upstream Y r) (origin_body (ap_timeout app) now)
         (held_storing x store) (forwarded_app x store app2) = (response, app1)"
proof -
  obtain store app2 where plan:
    "store_plan L wall (xc_req x) (xc_key x) (xc_policy x) (head_from_upstream Y r) app = (store, app2)" by force
  show ?thesis
    using assms stale_served freshened forwarded [OF plan]
    by (auto simp: answered_def plan Let_def serve_stale_def held_storing_def forwarded_app_def
        split: option.splits if_splits sum.splits)
qed

end
