(* ===== verification/Store_Inv.thy ===== *)
theory Store_Inv
  imports Store
begin

text \<open>
  Correctness of the store. \<open>store_run L s H\<close> says that the store \<open>s\<close> is reached from
  \<open>Store::new\<close> by the store's operations, in any order, with answers of the moka caches that may
  change from call to call, where \<open>H\<close> records every stored response with the target URI and the
  request it was stored for. \<open>store_inv\<close> is the invariant of these runs: generations tell
  target URIs and \<open>Vary\<close> lists apart, every stored response belongs to the generation its key
  carries, and its lifetimes respect the configured bound. The only bound assumed on a run is
  that the 64-bit generation counter has not been used up.
\<close>

section \<open>Answers of the caches\<close>

lemma entries_getD:
  "moka_sound ttl M \<Longrightarrow> entries_get M calls now k = Some e \<Longrightarrow>
   \<exists>t. latest calls k = Some (t, e) \<and> now \<le> t + entry_ttl e"
  by (simp add: moka_sound_def)

lemma index_getD:
  "moka_sound ttl M \<Longrightarrow> index_get M calls now p = Some ix \<Longrightarrow>
   \<exists>t. latest calls p = Some (t, ix) \<and> now \<le> t + index_time_to_live ttl"
  by (simp add: moka_sound_def)

lemma latest_Some: "latest calls k = Some (t, v) \<Longrightarrow> Inserted t k v \<in> set calls"
  by (induction calls k rule: latest.induct) (auto split: if_splits)

lemma entries_get_in:
  "moka_sound ttl M \<Longrightarrow> entries_get M calls now k = Some e \<Longrightarrow> \<exists>t. Inserted t k e \<in> set calls"
  by (blast dest: entries_getD latest_Some)

lemma index_get_in:
  "moka_sound ttl M \<Longrightarrow> index_get M calls now p = Some ix \<Longrightarrow> \<exists>t. Inserted t p ix \<in> set calls"
  by (blast dest: index_getD latest_Some)

section \<open>The generation counter\<close>

definition generation_left :: "store \<Rightarrow> bool" where
  "generation_left s \<longleftrightarrow> st_generation s \<noteq> - 1"

lemma unat_generation_Suc: "(x :: 64 word) \<noteq> - 1 \<Longrightarrow> unat (x + 1) = Suc (unat x)"
proof -
  assume "x \<noteq> - 1"
  then have "1 + x \<noteq> 0" by (simp add: add_eq_0_iff)
  then show ?thesis using unatSuc [of x] by (simp add: add.commute)
qed

lemma generation_less_Suc: "(x :: 64 word) \<noteq> - 1 \<Longrightarrow> y < x + 1 \<longleftrightarrow> y < x \<or> y = x"
  by (auto simp: word_less_nat_alt unat_generation_Suc less_Suc_eq word_unat_eq_iff)

section \<open>The invariant\<close>

text \<open>An exchange with the origin whose response was stored.\<close>

record exchange =
  ex_primary :: primary_key
  ex_policy :: request_policy
  ex_request :: fields
  ex_response :: fields
  ex_wall :: system_time
  ex_storable :: storable_policy
  ex_vary :: vary_key

definition exchange_storable :: "http_lib \<Rightarrow> exchange \<Rightarrow> status_code \<Rightarrow> bool" where
  "exchange_storable L x status \<longleftrightarrow>
     storable L (ex_wall x) (ex_policy x) (ex_request x) status (ex_response x) =
       Some (ex_storable x, ex_vary x)"

definition stored_in :: "store \<Rightarrow> instant \<Rightarrow> response_key \<Rightarrow> stored_response \<Rightarrow> bool" where
  "stored_in s t k r \<longleftrightarrow> Inserted t (ResponseKey k) (ResponseEntry r) \<in> set (st_entries s)"

definition indexed_in :: "store \<Rightarrow> primary_key \<Rightarrow> vary_index \<Rightarrow> bool" where
  "indexed_in s p ix \<longleftrightarrow> (\<exists>t. Inserted t p ix \<in> set (st_index s))"

definition response_ok :: "store \<Rightarrow> instant \<Rightarrow> stored_response \<Rightarrow> bool" where
  "response_ok s t r \<longleftrightarrow>
     sr_stored_at r = t \<and> 0 < sr_ttl r \<and> sr_ttl r \<le> st_ttl s \<and> sr_grace r \<le> st_ttl s \<and>
     sr_initial_age r + sr_ttl r \<le> duration_max \<and> sr_arc r < st_next_arc s"

definition kinds_ok :: "store \<Rightarrow> bool" where
  "kinds_ok s \<longleftrightarrow> (\<forall>t k e. Inserted t (ResponseKey k) e \<in> set (st_entries s) \<longrightarrow> (\<exists>r. e = ResponseEntry r))"

definition generations_ok :: "store \<Rightarrow> bool" where
  "generations_ok s \<longleftrightarrow>
     (\<forall>p ix. indexed_in s p ix \<longrightarrow> ix_generation ix < st_generation s) \<and>
     (\<forall>p ix p' ix'. indexed_in s p ix \<longrightarrow> indexed_in s p' ix' \<longrightarrow>
        ix_generation ix = ix_generation ix' \<longrightarrow> p = p' \<and> ix_vary ix = ix_vary ix')"

definition recorded ::
  "http_lib \<Rightarrow> store \<Rightarrow> (exchange \<times> stored_response) set \<Rightarrow> response_key \<Rightarrow> stored_response \<Rightarrow> bool" where
  "recorded L s H k r \<longleftrightarrow>
     (\<exists>x ix. (x, r) \<in> H \<and> exchange_storable L x (sr_status r) \<and> ex_primary x = rk_primary k \<and>
        vk_values (ex_vary x) = rk_vary k \<and> indexed_in s (rk_primary k) ix \<and>
        ix_generation ix = rk_generation k \<and> ix_vary ix = vk_names (ex_vary x))"

definition store_inv :: "http_lib \<Rightarrow> store \<Rightarrow> (exchange \<times> stored_response) set \<Rightarrow> bool" where
  "store_inv L s H \<longleftrightarrow>
     kinds_ok s \<and> generations_ok s \<and>
     (\<forall>t k r. stored_in s t k r \<longrightarrow> response_ok s t r \<and> recorded L s H k r) \<and>
     (\<forall>t k r t' k' r'. stored_in s t k r \<longrightarrow> stored_in s t' k' r' \<longrightarrow> sr_arc r = sr_arc r' \<longrightarrow>
        r = r' \<and> k = k')"

lemmas store_inv_defs = store_inv_def kinds_ok_def generations_ok_def recorded_def response_ok_def
  stored_in_def indexed_in_def

lemma store_inv_new: "store_inv L (store_new mb ttl) {}"
  by (simp add: store_inv_defs store_new_def Let_def)

text \<open>Calls that add nothing to the logs but invalidations and maintenance keep the invariant.\<close>

definition extends_quietly :: "store \<Rightarrow> store \<Rightarrow> bool" where
  "extends_quietly s s' \<longleftrightarrow>
     (\<forall>t k e. Inserted t (ResponseKey k) e \<in> set (st_entries s') \<longleftrightarrow>
        Inserted t (ResponseKey k) e \<in> set (st_entries s)) \<and>
     (\<forall>t p ix. Inserted t p ix \<in> set (st_index s') \<longleftrightarrow> Inserted t p ix \<in> set (st_index s)) \<and>
     st_generation s' = st_generation s \<and> st_ttl s' = st_ttl s \<and> st_next_arc s \<le> st_next_arc s'"

lemma extends_quietly_inv [invs]:
  assumes "store_inv L s H" and "extends_quietly s s'"
  shows "store_inv L s' H"
proof -
  have st: "stored_in s' = stored_in s" and ix: "indexed_in s' = indexed_in s"
    using assms(2) by (auto simp: extends_quietly_def stored_in_def indexed_in_def fun_eq_iff)
  have "response_ok s t r \<Longrightarrow> response_ok s' t r" for t r
    using assms(2) by (simp add: response_ok_def extends_quietly_def)
  moreover have "recorded L s' H = recorded L s H" by (simp add: recorded_def ix fun_eq_iff)
  moreover have "kinds_ok s' = kinds_ok s" "generations_ok s' = generations_ok s"
    using assms(2) ix by (simp_all add: kinds_ok_def extends_quietly_def generations_ok_def)
  ultimately show ?thesis using assms(1) by (auto simp: store_inv_def st)
qed

lemma quiet_operations [simp]:
  "extends_quietly s (invalidate s p)"
  "extends_quietly s (snd (start_refresh s e))"
  "extends_quietly s (drop_refresh_guard s k)"
  "extends_quietly s (snd (insert_asset s now path content etag modified))"
  "extends_quietly s (snd (entry_count M s now))"
  "extends_quietly s (snd (weighted_size M s now))"
  "extends_quietly s (snd (unstored_response s now sp status headers body))"
  "extends_quietly s (s\<lparr>st_entries := Invalidated k' # st_entries s\<rparr>)"
  by (auto simp: extends_quietly_def invalidate_def start_refresh_def drop_refresh_guard_def
      insert_asset_def entry_count_def weighted_size_def unstored_response_def Let_def)

lemma extends_quietly_trans:
  "extends_quietly s s' \<Longrightarrow> extends_quietly s' s'' \<Longrightarrow> extends_quietly s s''"
  by (simp add: extends_quietly_def)

section \<open>Storing a response\<close>

lemma new_response_simps [store_simps]:
  "sr_status (new_response s now sp status headers body) = status"
  "sr_headers (new_response s now sp status headers body) = headers"
  "sr_body (new_response s now sp status headers body) = body"
  "sr_stored_at (new_response s now sp status headers body) = now"
  "sr_initial_age (new_response s now sp status headers body) = so_initial_age sp"
  "sr_ttl (new_response s now sp status headers body) = min (so_ttl sp) (st_ttl s)"
  "sr_stale (new_response s now sp status headers body) = so_stale sp"
  "sr_arc (new_response s now sp status headers body) = st_next_arc s"
  by (simp_all add: new_response_def Let_def)

lemma sr_grace_new_response [store_simps]:
  "sr_grace (new_response s now sp status headers body) =
     grace_period (so_stale sp) (validators_of headers \<noteq> []) (st_ttl s)"
  by (simp add: new_response_def Let_def validators_def)

text \<open>The generation a response is stored under, and the counter afterwards.\<close>

definition generation_for :: "moka \<Rightarrow> store \<Rightarrow> instant \<Rightarrow> primary_key \<Rightarrow> header_name list \<Rightarrow> 64 word \<times> 64 word" where
  "generation_for M s now primary names =
     (case index_get M (st_index s) now primary of
        Some ix \<Rightarrow> if ix_vary ix = names then (ix_generation ix, st_generation s)
                   else (st_generation s, st_generation s + 1)
      | None \<Rightarrow> (st_generation s, st_generation s + 1))"

definition response_key_for :: "moka \<Rightarrow> store \<Rightarrow> instant \<Rightarrow> primary_key \<Rightarrow> vary_key \<Rightarrow> response_key" where
  "response_key_for M s now primary vk =
     \<lparr>rk_primary = primary, rk_generation = fst (generation_for M s now primary (vk_names vk)),
      rk_vary = vk_values vk\<rparr>"

lemma insert_response_eq:
  "insert_response M s now primary vk sp status headers body =
     (if \<not> store_enabled s \<or> st_max_entry s < length body then (None, s)
      else let r = new_response s now sp status headers body;
               g = generation_for M s now primary (vk_names vk)
        in (Some r,
            s\<lparr>st_index := Inserted now primary \<lparr>ix_vary = vk_names vk, ix_generation = fst g\<rparr> # st_index s,
              st_generation := snd g,
              st_entries := RanPending now #
                Inserted now (ResponseKey (response_key_for M s now primary vk)) (ResponseEntry r) # st_entries s,
              st_next_arc := Suc (st_next_arc s)\<rparr>))"
  by (simp add: insert_response_def generation_for_def response_key_for_def Let_def
      split: option.splits)

lemma insert_response_Some:
  assumes "insert_response M s now primary vk sp status headers body = (Some r, s')"
  shows "r = new_response s now sp status headers body"
    and "store_enabled s" and "length body \<le> st_max_entry s"
    and "st_index s' = Inserted now primary
      \<lparr>ix_vary = vk_names vk, ix_generation = fst (generation_for M s now primary (vk_names vk))\<rparr> # st_index s"
    and "st_entries s' = RanPending now #
      Inserted now (ResponseKey (response_key_for M s now primary vk)) (ResponseEntry r) # st_entries s"
    and "st_generation s' = snd (generation_for M s now primary (vk_names vk))"
    and "st_next_arc s' = Suc (st_next_arc s)" and "st_ttl s' = st_ttl s"
    and "st_max_entry s' = st_max_entry s"
  using assms by (auto simp: insert_response_eq Let_def split: if_splits)

lemma insert_response_None:
  "insert_response M s now primary vk sp status headers body = (None, s') \<Longrightarrow> s' = s"
  by (auto simp: insert_response_eq Let_def split: if_splits)

text \<open>The chosen generation is either new or the one the same names already have.\<close>

lemma generation_for_cases:
  assumes "moka_sound ttl M" and "generations_ok s" and "generation_left s"
    and g: "generation_for M s now primary names = (g, next)"
  shows "(g = st_generation s \<and> next = st_generation s + 1) \<or>
    (next = st_generation s \<and> indexed_in s primary \<lparr>ix_vary = names, ix_generation = g\<rparr>)"
proof (cases "index_get M (st_index s) now primary")
  case None
  then show ?thesis using g by (auto simp: generation_for_def)
next
  case (Some ix)
  then have "indexed_in s primary ix"
    using index_get_in [OF assms(1) Some] by (simp add: indexed_in_def)
  then show ?thesis using g Some by (cases ix) (auto simp: generation_for_def split: if_splits)
qed

lemma generations_ok_insert:
  assumes "moka_sound ttl M" and ok: "generations_ok s" and "generation_left s"
    and g: "generation_for M s now primary names = (g, next)"
    and ix: "st_index s' = Inserted now primary \<lparr>ix_vary = names, ix_generation = g\<rparr> # st_index s"
    and nx: "st_generation s' = next"
  shows "generations_ok s'"
proof -
  have in': "indexed_in s' p i \<longleftrightarrow>
      indexed_in s p i \<or> (p = primary \<and> i = \<lparr>ix_vary = names, ix_generation = g\<rparr>)" for p i
    using ix by (auto simp: indexed_in_def)
  have lt: "y < st_generation s + 1 \<longleftrightarrow> y < st_generation s \<or> y = st_generation s" for y
    using assms(3) by (simp add: generation_left_def generation_less_Suc)
  have ok': "\<And>p i. indexed_in s p i \<Longrightarrow> ix_generation i < st_generation s"
    "\<And>p i p' i'. indexed_in s p i \<Longrightarrow> indexed_in s p' i' \<Longrightarrow> ix_generation i = ix_generation i' \<Longrightarrow>
       p = p' \<and> ix_vary i = ix_vary i'"
    using ok unfolding generations_ok_def by blast+
  have unused: "indexed_in s p i \<Longrightarrow> ix_generation i \<noteq> st_generation s" for p i
    using ok'(1) [of p i] by auto
  from generation_for_cases [OF assms(1-4)] show ?thesis
  proof
    assume new: "g = st_generation s \<and> next = st_generation s + 1"
    show ?thesis
      unfolding generations_ok_def in' nx
    proof (intro conjI allI impI)
      fix p i
      assume "indexed_in s p i \<or> p = primary \<and> i = \<lparr>ix_vary = names, ix_generation = g\<rparr>"
      then show "ix_generation i < next" using new lt ok'(1) by auto
    next
      fix p i p' i'
      assume "indexed_in s p i \<or> p = primary \<and> i = \<lparr>ix_vary = names, ix_generation = g\<rparr>"
        and "indexed_in s p' i' \<or> p' = primary \<and> i' = \<lparr>ix_vary = names, ix_generation = g\<rparr>"
        and "ix_generation i = ix_generation i'"
      then show "p = p'" and "ix_vary i = ix_vary i'"
        using new unused [of p i] unused [of p' i'] ok'(2) [of p i p' i'] by auto
    qed
  next
    assume old: "next = st_generation s \<and> indexed_in s primary \<lparr>ix_vary = names, ix_generation = g\<rparr>"
    then have "indexed_in s' = indexed_in s" by (auto simp: in' fun_eq_iff)
    then have "generations_ok s' = generations_ok s"
      unfolding generations_ok_def by (simp only: nx old)
    then show ?thesis using ok by simp
  qed
qed

lemma insert_response_inv [invs]:
  assumes M: "moka_sound (st_ttl s) M" and inv: "store_inv L s H" and left: "generation_left s"
    and sp: "0 < so_ttl (ex_storable x)"
      "so_initial_age (ex_storable x) + so_ttl (ex_storable x) \<le> duration_max"
    and x: "exchange_storable L x status"
    and ins: "insert_response M s now (ex_primary x) (ex_vary x) (ex_storable x) status headers body =
      (Some r, s')"
  shows "store_inv L s' (insert (x, r) H)"
proof -
  note out = insert_response_Some [OF ins]
  let ?k = "response_key_for M s now (ex_primary x) (ex_vary x)"
  let ?ix = "\<lparr>ix_vary = vk_names (ex_vary x), ix_generation = rk_generation ?k\<rparr>"
  let ?H = "insert (x, r) H"
  have in': "indexed_in s' p i \<longleftrightarrow> indexed_in s p i \<or> (p = ex_primary x \<and> i = ?ix)" for p i
    using out(4) by (auto simp: indexed_in_def response_key_for_def)
  have st': "stored_in s' t k q \<longleftrightarrow> stored_in s t k q \<or> (t = now \<and> k = ?k \<and> q = r)" for t k q
    using out(5) by (auto simp: stored_in_def)
  have gens: "generations_ok s'"
    using generations_ok_insert [OF M _ left _ out(4), of "snd (generation_for M s now (ex_primary x) (vk_names (ex_vary x)))"]
      inv out(6) by (simp add: store_inv_def)
  have kinds: "kinds_ok s'" using inv out(5) by (auto simp: store_inv_def kinds_ok_def)
  have ttl: "st_ttl s \<noteq> 0" using out(2) by (simp add: store_enabled_def)
  have new: "response_ok s' now r" "sr_arc r = st_next_arc s"
    using ttl sp out(1,7,8) by (auto simp: response_ok_def store_simps grace_period_le min_def)
  have rec: "recorded L s' ?H ?k r"
    unfolding recorded_def in' using x out(1) by (intro exI [of _ x] exI [of _ ?ix])
      (simp add: response_key_for_def store_simps)
  have old: "response_ok s' t q" "recorded L s' ?H k q" "sr_arc q < st_next_arc s"
    if "stored_in s t k q" for t k q
  proof -
    have q: "response_ok s t q" "recorded L s H k q"
      using that inv unfolding store_inv_def by blast+
    show "response_ok s' t q" "sr_arc q < st_next_arc s"
      using q(1) out(7,8) by (auto simp: response_ok_def)
    show "recorded L s' ?H k q" using q(2) unfolding recorded_def in' by blast
  qed
  have arcs: "q = q' \<and> k = k'" if "stored_in s' t k q" "stored_in s' t' k' q'" "sr_arc q = sr_arc q'"
    for t k q t' k' q'
  proof -
    have "stored_in s t k q \<Longrightarrow> stored_in s t' k' q' \<Longrightarrow> q = q' \<and> k = k'"
      using inv that(3) unfolding store_inv_def by blast
    moreover have "stored_in s t k q \<Longrightarrow> sr_arc q \<noteq> sr_arc r" for t k q
      using old(3) [of t k q] new(2) by linarith
    ultimately show ?thesis using that unfolding st' by metis
  qed
  have "response_ok s' t q \<and> recorded L s' ?H k q" if "stored_in s' t k q" for t k q
    using that new(1) rec old(1,2) unfolding st' by blast
  then show ?thesis
    unfolding store_inv_def using kinds gens arcs by blast
qed

end
