(* ===== verification/Store_Correct.thy ===== *)
theory Store_Correct
  imports Store_Inv Contracts
begin

text \<open>
  The store's promises: the runs of the store, the table of variants that it implements, the
  interpretation of the contracts \<open>variant_cache\<close> and \<open>claims\<close>, and the properties of lookups,
  invalidation, revalidation and the background refresh guard.
\<close>

section \<open>Runs of the store\<close>

text \<open>The variant key under which \<open>freshen\<close> stores the updated response, if it does.\<close>

definition freshen_exchange ::
  "http_lib \<Rightarrow> moka \<Rightarrow> store \<Rightarrow> system_time \<Rightarrow> instant \<Rightarrow> stale_entry \<Rightarrow> request_policy \<Rightarrow> fields \<Rightarrow>
   fields \<Rightarrow> header_value option \<Rightarrow> exchange option" where
  "freshen_exchange L M s wall now e policy request update age =
     (case storable L wall policy request (sr_status (se_response e)) (freshen_map e update age) of
        Some (sp, vary) \<Rightarrow>
          if is_current M s now e \<and> store_enabled s \<and> length (sr_body (se_response e)) \<le> st_max_entry s
          then Some \<lparr>ex_primary = rk_primary (se_key e), ex_policy = policy, ex_request = request,
            ex_response = freshen_map e update age, ex_wall = wall, ex_storable = sp, ex_vary = vary\<rparr>
          else None
      | None \<Rightarrow> None)"

inductive store_run :: "http_lib \<Rightarrow> nat \<Rightarrow> duration \<Rightarrow> store \<Rightarrow> (exchange \<times> stored_response) set \<Rightarrow> bool"
  for L mb ttl where
  run_new: "store_run L mb ttl (store_new mb ttl) {}"
| run_insert: "store_run L mb ttl s H \<Longrightarrow> moka_sound ttl M \<Longrightarrow> generation_left s \<Longrightarrow>
    system_time_range (ex_wall x) \<Longrightarrow> exchange_storable L x status \<Longrightarrow>
    insert_response M s now (ex_primary x) (ex_vary x) (ex_storable x) status headers body = (ret, s') \<Longrightarrow>
    store_run L mb ttl s' (case ret of None \<Rightarrow> H | Some r \<Rightarrow> insert (x, r) H)"
| run_freshen: "store_run L mb ttl s H \<Longrightarrow> moka_sound ttl M \<Longrightarrow> generation_left s \<Longrightarrow>
    system_time_range wall \<Longrightarrow>
    freshen L M s wall now e policy request update age = (r, s') \<Longrightarrow>
    store_run L mb ttl s' (case freshen_exchange L M s wall now e policy request update age of
      None \<Rightarrow> H | Some x \<Rightarrow> insert (x, r) H)"
| run_asset: "store_run L mb ttl s H \<Longrightarrow>
    store_run L mb ttl (snd (insert_asset s now path content etag modified)) H"
| run_invalidate: "store_run L mb ttl s H \<Longrightarrow> store_run L mb ttl (invalidate s p) H"
| run_start_refresh: "store_run L mb ttl s H \<Longrightarrow> store_run L mb ttl (snd (start_refresh s e)) H"
| run_drop_guard: "store_run L mb ttl s H \<Longrightarrow> store_run L mb ttl (drop_refresh_guard s k) H"
| run_count: "store_run L mb ttl s H \<Longrightarrow> store_run L mb ttl (snd (entry_count M s now)) H"
| run_size: "store_run L mb ttl s H \<Longrightarrow> store_run L mb ttl (snd (weighted_size M s now)) H"

lemma freshen_cases:
  assumes "freshen L M s wall now e policy request update age = (r, s')"
  shows "(\<exists>x. freshen_exchange L M s wall now e policy request update age = Some x \<and>
      exchange_storable L x (sr_status (se_response e)) \<and> ex_wall x = wall \<and>
      ex_primary x = rk_primary (se_key e) \<and>
      insert_response M s now (ex_primary x) (ex_vary x) (ex_storable x) (sr_status (se_response e))
        (updated_fields (sr_headers (se_response e)) update) (sr_body (se_response e)) = (Some r, s')) \<or>
    (freshen_exchange L M s wall now e policy request update age = None \<and> extends_quietly s s')"
proof -
  let ?st = "storable L wall policy request (sr_status (se_response e)) (freshen_map e update age)"
  have quiet: "extends_quietly s (snd (unstored_response (s\<lparr>st_entries := Invalidated k # st_entries s\<rparr>)
      now sp status headers body))" for k sp status headers body
    by (rule extends_quietly_trans) (rule quiet_operations(8), rule quiet_operations(7))
  have rs: "r = fst (freshen L M s wall now e policy request update age)"
    "s' = snd (freshen L M s wall now e policy request update age)" using assms by simp_all
  show ?thesis
  proof (cases ?st)
    case None
    then show ?thesis using rs quiet by (simp add: freshen_def freshen_exchange_def Let_def)
  next
    case (Some p)
    then obtain sp vk where p: "?st = Some (sp, vk)" by (cases p) auto
    show ?thesis
      using rs p
      by (auto simp: freshen_def freshen_exchange_def Let_def exchange_storable_def
          insert_response_eq split: if_splits)
  qed
qed

lemma store_run_params: "store_run L mb ttl s H \<Longrightarrow>
   st_ttl s = ttl \<and> st_max_entry s = st_max_entry (store_new mb ttl)"
proof (induction rule: store_run.induct)
  case run_new
  then show ?case by (simp add: store_new_def Let_def)
next
  case (run_insert s H M x status now headers body ret s')
  then show ?case by (cases ret) (auto dest: insert_response_Some(8,9) insert_response_None)
next
  case (run_freshen s H M wall now e policy request update age r s')
  have "st_ttl s' = st_ttl s \<and> st_max_entry s' = st_max_entry s"
    using run_freshen.hyps(5)
    by (auto simp: freshen_def Let_def unstored_response_def insert_response_eq
        split: option.splits if_splits prod.splits)
  then show ?case using run_freshen.IH by simp
qed (auto simp: insert_asset_def invalidate_def start_refresh_def drop_refresh_guard_def
    entry_count_def weighted_size_def Let_def)

lemma exchange_lifetime:
  assumes "http_date_documented L" and "system_time_range (ex_wall x)" and "exchange_storable L x status"
  shows "0 < so_ttl (ex_storable x) \<and> so_initial_age (ex_storable x) + so_ttl (ex_storable x) \<le> duration_max"
  using assms by (auto simp: exchange_storable_def storable_Some dest: freshness_lifetime_bound)

lemma store_run_inv:
  assumes "store_run L mb ttl s H" and "http_date_documented L"
  shows "store_inv L s H"
  using assms(1)
proof (induction rule: store_run.induct)
  case run_new
  show ?case by (rule store_inv_new)
next
  case (run_insert s H M x status now headers body ret s')
  note life = exchange_lifetime [OF assms(2) run_insert.hyps(4,5)]
  show ?case
  proof (cases ret)
    case None
    then show ?thesis using run_insert.IH run_insert.hyps(6) by (auto dest: insert_response_None)
  next
    case (Some r)
    have "moka_sound (st_ttl s) M"
      using run_insert.hyps(1,2) store_run_params by blast
    then show ?thesis
      using insert_response_inv [OF _ run_insert.IH run_insert.hyps(3) _ _ run_insert.hyps(5)] life
        run_insert.hyps(6) Some by simp
  qed
next
  case (run_freshen s H M wall now e policy request update age r s')
  have M: "moka_sound (st_ttl s) M" using run_freshen.hyps(1,2) store_run_params by blast
  from freshen_cases [OF run_freshen.hyps(5)] show ?case
  proof (elim disjE exE conjE)
    fix x
    assume x: "freshen_exchange L M s wall now e policy request update age = Some x"
      "exchange_storable L x (sr_status (se_response e))" "ex_wall x = wall"
      and ins: "insert_response M s now (ex_primary x) (ex_vary x) (ex_storable x)
        (sr_status (se_response e)) (updated_fields (sr_headers (se_response e)) update)
        (sr_body (se_response e)) = (Some r, s')"
    then show ?thesis
      using insert_response_inv [OF M run_freshen.IH run_freshen.hyps(3) _ _ x(2) ins]
        exchange_lifetime [OF assms(2) _ x(2)] run_freshen.hyps(4) by simp
  next
    assume "freshen_exchange L M s wall now e policy request update age = None"
      and "extends_quietly s s'"
    then show ?thesis using run_freshen.IH by (auto intro: extends_quietly_inv)
  qed
qed (auto intro: extends_quietly_inv)

section \<open>Lookups\<close>

fun result_response :: "lookup_result \<Rightarrow> stored_response" where
  "result_response (Fresh r) = r"
| "result_response (Stale e) = se_response e"

definition lookup_key :: "vary_index \<Rightarrow> primary_key \<Rightarrow> fields \<Rightarrow> response_key" where
  "lookup_key ix primary request =
     \<lparr>rk_primary = primary, rk_generation = ix_generation ix, rk_vary = vary_values (ix_vary ix) request\<rparr>"

text \<open>What a lookup that does not fault returns.\<close>

lemma lookup_Inr:
  assumes "lookup M s now primary request oldest = Inr (Some res)"
  obtains ix r where "index_get M (st_index s) now primary = Some ix"
    and "entries_get M (st_entries s) now (ResponseKey (lookup_key ix primary request)) = Some (ResponseEntry r)"
    and "result_response res = r"
    and "\<And>r'. res = Fresh r' \<Longrightarrow> is_fresh r now \<and>
      (\<forall>m. oldest = Some m \<longrightarrow> sr_initial_age r + elapsed (sr_stored_at r) now \<le> m)"
    and "\<And>e. res = Stale e \<Longrightarrow> se_key e = lookup_key ix primary request \<and>
      (is_fresh r now \<longrightarrow> (\<exists>m. oldest = Some m \<and> m < sr_initial_age r + elapsed (sr_stored_at r) now))"
  using assms
  by (auto simp: lookup_def lookup_key_def Let_def response_age_def
      split: option.splits entry.splits if_splits sum.splits)

lemma lookup_Inl:
  assumes "lookup M s now primary request oldest = Inl f"
  obtains ix r where "index_get M (st_index s) now primary = Some ix"
    and "entries_get M (st_entries s) now (ResponseKey (lookup_key ix primary request)) = Some (ResponseEntry r)"
    and "is_fresh r now" and "duration_max < sr_initial_age r + elapsed (sr_stored_at r) now"
  using assms
  by (auto simp: lookup_def lookup_key_def Let_def response_age_def
      split: option.splits entry.splits if_splits sum.splits)

lemma lookup_stored:
  assumes "moka_sound ttl M" and "lookup M s now primary request oldest = Inr (Some res)"
  obtains ix t where "indexed_in s primary ix"
    and "stored_in s t (lookup_key ix primary request) (result_response res)"
    and "now \<le> t + entry_ttl (ResponseEntry (result_response res))"
  using assms(2)
proof (cases rule: lookup_Inr)
  case (1 ix r)
  obtain t where "Inserted t (ResponseKey (lookup_key ix primary request)) (ResponseEntry r) \<in> set (st_entries s)"
    and "now \<le> t + entry_ttl (ResponseEntry r)"
    using entries_getD [OF assms(1) 1(2)] by (auto dest: latest_Some)
  moreover have "indexed_in s primary ix"
    using index_get_in [OF assms(1) 1(1)] by (simp add: indexed_in_def)
  ultimately show ?thesis using that 1(3) by (simp add: stored_in_def)
qed

section \<open>The table of variants\<close>

definition generation_inv :: "store \<Rightarrow> bool" where
  "generation_inv s \<longleftrightarrow> generations_ok s \<and>
     (\<forall>t k e. Inserted t (ResponseKey k) e \<in> set (st_entries s) \<longrightarrow> rk_generation k < st_generation s)"

definition variants :: "store \<Rightarrow> primary_key \<Rightarrow> 64 word \<Rightarrow> string option list \<rightharpoonup> stored_response" where
  "variants s p g vals =
     (case latest (st_entries s) (ResponseKey \<lparr>rk_primary = p, rk_generation = g, rk_vary = vals\<rparr>) of
        Some (_, ResponseEntry r) \<Rightarrow> Some r | _ \<Rightarrow> None)"

definition variant_table ::
  "store \<Rightarrow> primary_key \<Rightarrow> (header_name list \<times> (string option list \<rightharpoonup> stored_response)) option" where
  "variant_table s p =
     (case latest (st_index s) p of
        None \<Rightarrow> None | Some (_, ix) \<Rightarrow> Some (ix_vary ix, variants s p (ix_generation ix)))"

fun store_cache_step ::
  "(primary_key, header_name list, string option list, stored_response) cache_op \<Rightarrow> store \<Rightarrow> store \<Rightarrow> bool" where
  "store_cache_step (Put p n v r) s s' \<longleftrightarrow>
     (\<exists>M now sp status headers body. moka_sound (st_ttl s) M \<and> generation_left s \<and>
        insert_response M s now p \<lparr>vk_names = n, vk_values = v\<rparr> sp status headers body = (Some r, s'))"
| "store_cache_step (Drop p) s s' \<longleftrightarrow> s' = invalidate s p"
| "store_cache_step Shrink s s' \<longleftrightarrow>
     (\<exists>now path content etag modified. s' = snd (insert_asset s now path content etag modified)) \<or>
     (\<exists>k. s' = s\<lparr>st_entries := Invalidated k # st_entries s\<rparr>) \<or>
     (\<exists>now sp status headers body. s' = snd (unstored_response s now sp status headers body)) \<or>
     (\<exists>e. s' = snd (start_refresh s e)) \<or> (\<exists>k. s' = drop_refresh_guard s k) \<or>
     (\<exists>M now. s' = snd (entry_count M s now)) \<or> (\<exists>M now. s' = snd (weighted_size M s now))"

definition store_answer ::
  "store \<Rightarrow> primary_key \<Rightarrow> (header_name list \<Rightarrow> string option list) \<Rightarrow> stored_response \<Rightarrow> bool" where
  "store_answer s p sel r \<longleftrightarrow>
     (\<exists>M now request oldest res. moka_sound (st_ttl s) M \<and> sel = (\<lambda>n. vary_values n request) \<and>
        lookup M s now p request oldest = Inr (Some res) \<and> result_response res = r)"

lemma store_answer_sound:
  assumes "store_answer s p sel r"
  shows "\<exists>n m. variant_table s p = Some (n, m) \<and> m (sel n) = Some r"
proof -
  obtain M now request oldest res where M: "moka_sound (st_ttl s) M"
    and sel: "sel = (\<lambda>n. vary_values n request)"
    and look: "lookup M s now p request oldest = Inr (Some res)" and r: "result_response res = r"
    using assms unfolding store_answer_def by blast
  from look obtain ix where ix: "index_get M (st_index s) now p = Some ix"
    and e: "entries_get M (st_entries s) now (ResponseKey (lookup_key ix p request)) = Some (ResponseEntry r)"
    using r by (auto elim: lookup_Inr)
  obtain t where "latest (st_index s) p = Some (t, ix)" using index_getD [OF M ix] by blast
  moreover obtain t' where "latest (st_entries s) (ResponseKey (lookup_key ix p request)) = Some (t', ResponseEntry r)"
    using entries_getD [OF M e] by blast
  ultimately show ?thesis
    by (auto simp: variant_table_def variants_def sel lookup_key_def)
qed

lemma latest_None: "(\<And>t v. Inserted t k v \<notin> set calls) \<Longrightarrow> latest calls k = None"
  using latest_Some by (cases "latest calls k") fastforce+

lemma variants_unused: "generation_inv s \<Longrightarrow> variants s p (st_generation s) = Map.empty"
proof
  fix vals
  assume inv: "generation_inv s"
  let ?k = "\<lparr>rk_primary = p, rk_generation = st_generation s, rk_vary = vals\<rparr>"
  have "Inserted t (ResponseKey ?k) e \<notin> set (st_entries s)" for t e
    using inv unfolding generation_inv_def by (metis less_irrefl response_key.select_convs(2))
  then have "latest (st_entries s) (ResponseKey ?k) = None" by (rule latest_None)
  then show "variants s p (st_generation s) vals = None" by (simp add: variants_def)
qed

lemma variant_table_put:
  assumes inv: "generation_inv s" and M: "moka_sound (st_ttl s) M" and left: "generation_left s"
    and ins: "insert_response M s now p vk sp status headers body = (Some r, s')"
  shows "\<exists>m. variant_table s' = (variant_table s)(p \<mapsto> (vk_names vk, m(vk_values vk \<mapsto> r))) \<and>
    (m = Map.empty \<or> variant_table s p = Some (vk_names vk, m))"
proof -
  note out = insert_response_Some [OF ins]
  obtain g nx where g: "generation_for M s now p (vk_names vk) = (g, nx)"
    by (cases "generation_for M s now p (vk_names vk)")
  let ?m = "variants s p g"
  have "variant_table s' q = ((variant_table s)(p \<mapsto> (vk_names vk, ?m(vk_values vk \<mapsto> r)))) q" for q
    using out(4,5) g
    by (cases "q = p")
      (auto simp: variant_table_def variants_def response_key_for_def fun_eq_iff split: option.splits)
  then have t: "variant_table s' = (variant_table s)(p \<mapsto> (vk_names vk, ?m(vk_values vk \<mapsto> r)))" ..
  have "?m = Map.empty \<or> variant_table s p = Some (vk_names vk, ?m)"
  proof (cases "index_get M (st_index s) now p")
    case None
    then have "g = st_generation s" using g by (simp add: generation_for_def)
    then show ?thesis using variants_unused [OF inv] by simp
  next
    case (Some ix)
    obtain t where l: "latest (st_index s) p = Some (t, ix)" using index_getD [OF M Some] by blast
    show ?thesis
    proof (cases "ix_vary ix = vk_names vk")
      case True
      then have "g = ix_generation ix" using g Some by (simp add: generation_for_def)
      then show ?thesis using l True by (simp add: variant_table_def)
    next
      case False
      then have "g = st_generation s" using g Some by (simp add: generation_for_def)
      then show ?thesis using variants_unused [OF inv] by simp
    qed
  qed
  with t show ?thesis by blast
qed

lemma variants_index_update [simp]: "variants (s\<lparr>st_index := c\<rparr>) = variants s"
  by (simp add: variants_def fun_eq_iff)

lemma variant_table_shrink:
  assumes "st_index s' = st_index s"
    and "\<And>k. latest (st_entries s') (ResponseKey k) \<in> {None, latest (st_entries s) (ResponseKey k)}"
  shows "table_le (variant_table s') (variant_table s)"
proof -
  have "variants s' p g vals = Some r \<Longrightarrow> variants s p g vals = Some r" for p g vals r
    using assms(2) [of "\<lparr>rk_primary = p, rk_generation = g, rk_vary = vals\<rparr>"]
    unfolding insert_iff empty_iff by (elim disjE) (simp_all add: variants_def)
  then have "variants s' p g \<subseteq>\<^sub>m variants s p g" for p g by (auto simp: map_le_def)
  then show ?thesis using assms(1) by (auto simp: table_le_def variant_table_def split: option.splits)
qed

lemma shrink_index [store_simps]:
  "st_index (snd (insert_asset s now path content etag modified)) = st_index s"
  "st_index (snd (unstored_response s now sp status headers body)) = st_index s"
  "st_index (snd (start_refresh s e)) = st_index s"
  "st_index (drop_refresh_guard s rk) = st_index s"
  "st_index (snd (entry_count M s now)) = st_index s"
  "st_index (snd (weighted_size M s now)) = st_index s"
  by (simp_all add: insert_asset_def unstored_response_def start_refresh_def drop_refresh_guard_def
      entry_count_def weighted_size_def Let_def)

lemma shrink_entries [store_simps]:
  "latest (st_entries (snd (insert_asset s now path content etag modified))) (ResponseKey k) =
     latest (st_entries s) (ResponseKey k)"
  "st_entries (snd (unstored_response s now sp status headers body)) = st_entries s"
  "st_entries (snd (start_refresh s e)) = st_entries s"
  "st_entries (drop_refresh_guard s rk) = st_entries s"
  "latest (st_entries (snd (entry_count M s now))) ck = latest (st_entries s) ck"
  "latest (st_entries (snd (weighted_size M s now))) ck = latest (st_entries s) ck"
  by (simp_all add: insert_asset_def unstored_response_def start_refresh_def drop_refresh_guard_def
      entry_count_def weighted_size_def Let_def)

lemma shrink_table_le:
  assumes "store_cache_step Shrink s s'"
  shows "table_le (variant_table s') (variant_table s)"
  using assms unfolding store_cache_step.simps
  by (elim disjE exE; hypsubst; intro variant_table_shrink) (simp_all add: store_simps)

lemma generation_inv_quiet:
  assumes inv: "generation_inv s" and q: "extends_quietly s s'"
  shows "generation_inv s'"
proof -
  have ix: "indexed_in s' = indexed_in s" and g: "st_generation s' = st_generation s"
    using q by (auto simp: extends_quietly_def indexed_in_def fun_eq_iff)
  have "generations_ok s'" using inv unfolding generation_inv_def generations_ok_def ix g by blast
  moreover have "Inserted t (ResponseKey k) e \<in> set (st_entries s') \<Longrightarrow>
      Inserted t (ResponseKey k) e \<in> set (st_entries s)" for t k e
    using q unfolding extends_quietly_def by blast
  ultimately show ?thesis using inv unfolding generation_inv_def g by blast
qed

lemma shrink_quiet: "store_cache_step Shrink s s' \<Longrightarrow> extends_quietly s s'"
  unfolding store_cache_step.simps by (elim disjE exE) simp_all

lemma generation_inv_insert:
  assumes inv: "generation_inv s" and M: "moka_sound (st_ttl s) M" and left: "generation_left s"
    and ins: "insert_response M s now p vk sp status headers body = (Some r, s')"
  shows "generation_inv s'"
proof -
  note out = insert_response_Some [OF ins]
  obtain g nx where g: "generation_for M s now p (vk_names vk) = (g, nx)"
    by (cases "generation_for M s now p (vk_names vk)")
  have ok: "generations_ok s" and old: "\<And>t k e. Inserted t (ResponseKey k) e \<in> set (st_entries s) \<Longrightarrow>
      rk_generation k < st_generation s"
    using inv by (auto simp: generation_inv_def)
  have ok': "generations_ok s'"
    using generations_ok_insert [OF M ok left g] out(4,6) g by simp
  have mono: "x < st_generation s \<Longrightarrow> x < st_generation s'" for x
    using generation_for_cases [OF M ok left g] out(6) g left
    by (auto simp: generation_less_Suc generation_left_def)
  have "indexed_in s' p \<lparr>ix_vary = vk_names vk, ix_generation = g\<rparr>"
    using out(4) g by (auto simp: indexed_in_def)
  then have "g < st_generation s'" using ok' by (fastforce simp: generations_ok_def)
  then show ?thesis
    using ok' mono old out(5) g by (auto simp: generation_inv_def response_key_for_def)
qed

lemma generation_inv_step: "generation_inv s \<Longrightarrow> store_cache_step op s s' \<Longrightarrow> generation_inv s'"
proof (cases op)
  case (Put p n v r)
  assume "generation_inv s" and "store_cache_step op s s'"
  then show ?thesis using Put by (auto intro: generation_inv_insert)
next
  case (Drop p)
  assume "generation_inv s" and "store_cache_step op s s'"
  then show ?thesis using Drop by (auto intro: generation_inv_quiet)
next
  case Shrink
  assume "generation_inv s" and "store_cache_step op s s'"
  then show ?thesis using Shrink shrink_quiet generation_inv_quiet by blast
qed

interpretation vc: variant_cache generation_inv variant_table store_cache_step store_answer
proof (unfold_locales, goal_cases)
  case (1 s p sel r)
  then show ?case by (blast intro: store_answer_sound)
next
  case (2 s p n v r s')
  then obtain M now sp status headers body where "moka_sound (st_ttl s) M" "generation_left s"
    "insert_response M s now p \<lparr>vk_names = n, vk_values = v\<rparr> sp status headers body = (Some r, s')"
    by auto
  from variant_table_put [OF 2(1) this] show ?case by simp
next
  case (3 s p s')
  then show ?case by (simp add: variant_table_def invalidate_def fun_eq_iff split: option.split)
next
  case (4 s s')
  then show ?case by (blast intro: shrink_table_le)
next
  case (5 s op s')
  then show ?case by (rule generation_inv_step)
qed

lemma store_new_empty:
  "generation_inv (store_new mb ttl)" "variant_table (store_new mb ttl) = (\<lambda>_. None)"
  by (simp_all add: generation_inv_def generations_ok_def indexed_in_def store_new_def Let_def
      variant_table_def fun_eq_iff)

text \<open>A reachable store satisfies the invariant of the contract.\<close>

lemma store_inv_generation_inv:
  assumes "store_inv L s H"
  shows "generation_inv s"
proof -
  have kinds: "kinds_ok s" and gens: "generations_ok s"
    and rec: "\<And>t k r. stored_in s t k r \<Longrightarrow> recorded L s H k r"
    using assms unfolding store_inv_def by blast+
  have "rk_generation k < st_generation s" if i: "Inserted t (ResponseKey k) e \<in> set (st_entries s)" for t k e
  proof -
    obtain r where "stored_in s t k r" using kinds i unfolding kinds_ok_def stored_in_def by blast
    from rec [OF this] obtain ix where "indexed_in s (rk_primary k) ix" "ix_generation ix = rk_generation k"
      unfolding recorded_def by blast
    then show ?thesis using gens unfolding generations_ok_def by metis
  qed
  then show ?thesis using gens by (simp add: generation_inv_def)
qed

section \<open>The background revalidation guard\<close>

definition claim_refresh :: "store \<Rightarrow> response_key \<Rightarrow> bool \<times> store" where
  "claim_refresh s k = (case start_refresh s \<lparr>se_response = undefined, se_key = k\<rparr> of
     (g, s') \<Rightarrow> (g \<noteq> None, s'))"

interpretation refresh: claims st_refreshing claim_refresh drop_refresh_guard
  by unfold_locales
    (auto simp: claim_refresh_def start_refresh_def drop_refresh_guard_def)

section \<open>Consequences of the invariant\<close>

lemma store_inv_stored:
  assumes "store_inv L s H" and "stored_in s t k r"
  shows "response_ok s t r" and "recorded L s H k r"
  using assms unfolding store_inv_def by blast+

lemma store_inv_generations: "store_inv L s H \<Longrightarrow> generations_ok s"
  by (simp add: store_inv_def)

lemma exchange_vary_values:
  "exchange_storable L x status \<Longrightarrow> vk_values (ex_vary x) = vary_values (vk_names (ex_vary x)) (ex_request x)"
  by (auto simp: exchange_storable_def storable_Some)

lemma lookup_recorded:
  assumes inv: "store_inv L s H" and M: "moka_sound ttl M"
    and look: "lookup M s now primary request oldest = Inr (Some res)"
  shows "\<exists>x. (x, result_response res) \<in> H \<and> ex_primary x = primary \<and>
    exchange_storable L x (sr_status (result_response res)) \<and>
    vary_values (vk_names (ex_vary x)) request = vary_values (vk_names (ex_vary x)) (ex_request x)"
  using M look
proof (cases rule: lookup_stored)
  case (1 ix t)
  from store_inv_stored(2) [OF inv 1(2)] obtain x ix' where x: "(x, result_response res) \<in> H"
      "exchange_storable L x (sr_status (result_response res))" "ex_primary x = primary"
      "vk_values (ex_vary x) = vary_values (ix_vary ix) request"
    and ix': "indexed_in s primary ix'" "ix_generation ix' = ix_generation ix"
      "ix_vary ix' = vk_names (ex_vary x)"
    by (auto simp: recorded_def lookup_key_def)
  have "ix_vary ix = vk_names (ex_vary x)"
    using store_inv_generations [OF inv] 1(1) ix' unfolding generations_ok_def by metis
  then show ?thesis using x exchange_vary_values [OF x(2)] by metis
qed

lemma elapsed_fresh_fits:
  "response_ok s t r \<Longrightarrow> is_fresh r now \<Longrightarrow> sr_initial_age r + elapsed (sr_stored_at r) now \<le> duration_max"
  by (simp add: response_ok_def is_fresh_def)

lemma lookup_no_fault:
  assumes inv: "store_inv L s H" and M: "moka_sound ttl M"
  shows "lookup M s now primary request oldest \<noteq> Inl f"
proof
  assume "lookup M s now primary request oldest = Inl f"
  then show False
  proof (cases rule: lookup_Inl)
    case (1 ix r)
    obtain t where "stored_in s t (lookup_key ix primary request) r"
      using entries_get_in [OF M 1(2)] by (auto simp: stored_in_def)
    from store_inv_stored(1) [OF inv this] show False
      using elapsed_fresh_fits 1(3,4) by fastforce
  qed
qed

lemma entry_ttl_response_le:
  "response_ok s t r \<Longrightarrow> entry_ttl (ResponseEntry r) \<le> 2 * st_ttl s \<and>
    entry_ttl (ResponseEntry r) \<le> index_time_to_live (st_ttl s)"
  by (auto simp: response_ok_def entry_ttl_def index_time_to_live_def saturating_add_dur_def
      saturating_mul_dur_def)

lemma disabled_stores_nothing:
  assumes "store_run L mb ttl s H" and "mb = 0 \<or> ttl = 0"
  shows "st_index s = [] \<or> (\<forall>t p ix. Inserted t p ix \<notin> set (st_index s))"
  using assms(1)
proof (induction rule: store_run.induct)
  case (run_insert s H M x status now headers body ret s')
  have "\<not> store_enabled s"
    using store_run_params [OF run_insert.hyps(1)] assms(2)
    by (auto simp: store_enabled_def store_new_def Let_def saturating_mul_u64_def)
  then show ?case using run_insert.IH run_insert.hyps(6) by (auto simp: insert_response_eq)
next
  case (run_freshen s H M wall now e policy request update age r s')
  have "\<not> store_enabled s"
    using store_run_params [OF run_freshen.hyps(1)] assms(2)
    by (auto simp: store_enabled_def store_new_def Let_def saturating_mul_u64_def)
  then have "st_index s' = st_index s"
    using run_freshen.hyps(5)
    by (auto simp: freshen_def Let_def insert_response_eq unstored_response_def
        split: option.splits if_splits prod.splits)
  then show ?case using run_freshen.IH by simp
qed (auto simp: store_simps invalidate_def store_new_def Let_def)

lemma freshen_result:
  assumes "freshen L M s wall now e policy request update age = (r, s')"
  shows "sr_body r = sr_body (se_response e)" and "sr_status r = sr_status (se_response e)"
    and "sr_headers r = updated_fields (sr_headers (se_response e)) update" and "sr_stored_at r = now"
  using assms
  by (auto simp: freshen_def Let_def insert_response_eq unstored_response_def store_simps
      split: option.splits if_splits prod.splits)

lemma get_all_updated_fields:
  "get_all (updated_fields stored update) n =
     (if contains_key update n then get_all update n else get_all stored n)"
proof -
  have "get_all (filter (\<lambda>(name, _). \<not> list_ex (\<lambda>(m, _). m = name) update) stored) n =
      (if contains_key update n then [] else get_all stored n)"
    using get_all_filter [of "\<lambda>name. \<not> list_ex (\<lambda>(m, _). m = name) update" stored n]
    by (simp add: contains_key_def)
  then show ?thesis by (simp add: updated_fields_def contains_key_get_all)
qed

section \<open>A worked example\<close>

text \<open>A cache that evicts nothing, and a store that holds one response.\<close>

definition live_get :: "('v \<Rightarrow> duration) \<Rightarrow> ('k, 'v) moka_call list \<Rightarrow> instant \<Rightarrow> 'k \<Rightarrow> 'v option" where
  "live_get life calls now k =
     (case latest calls k of
        None \<Rightarrow> None | Some (t, v) \<Rightarrow> if now \<le> t + life v then Some v else None)"

fun call_keys :: "('k, 'v) moka_call list \<Rightarrow> 'k list" where
  "call_keys [] = []"
| "call_keys (Inserted t k v # calls) = List.insert k (call_keys calls)"
| "call_keys (Invalidated k # calls) = removeAll k (call_keys calls)"
| "call_keys (RanPending t # calls) = call_keys calls"

definition moka_example :: "duration \<Rightarrow> moka" where
  "moka_example ttl =
     \<lparr>entries_get = live_get entry_ttl,
      index_get = live_get (\<lambda>_. index_time_to_live ttl),
      entries_count = (\<lambda>calls. length (call_keys calls)),
      entries_weight = (\<lambda>calls. sum_list (map (\<lambda>k. case latest calls k of
         None \<Rightarrow> 0 | Some (_, e) \<Rightarrow> entry_weight k e) (call_keys calls)))\<rparr>"

lemma moka_example_sound: "moka_sound ttl (moka_example ttl)"
  by (auto simp: moka_sound_def moka_example_def live_get_def split: option.splits if_splits)

definition example_ttl :: duration where "example_ttl = from_secs 300"

definition example_key :: primary_key where
  "example_key = primary_key_new ''http'' ''Example.org'' ''/page''"

definition example_exchange :: exchange where
  "example_exchange =
     \<lparr>ex_primary = example_key, ex_policy = request_policy_new http_example ''GET'' [],
      ex_request = [], ex_response = example_response, ex_wall = 0,
      ex_storable = \<lparr>so_ttl = from_secs 50, so_initial_age = from_secs 10, so_stale = default_stale_rules\<rparr>,
      ex_vary = \<lparr>vk_names = [''accept''], vk_values = [None]\<rparr>\<rparr>"

definition example_insert :: "stored_response option \<times> store" where
  "example_insert =
     insert_response (moka_example example_ttl) (store_new 1 example_ttl) 1000 example_key
       (ex_vary example_exchange) (ex_storable example_exchange) 200 example_response ''hello''"

definition example_stored :: stored_response where
  "example_stored = the (fst example_insert)"

definition example_store :: store where
  "example_store = snd example_insert"

lemma example_exchange_storable: "exchange_storable http_example example_exchange 200"
  using example_storable by (simp add: exchange_storable_def example_exchange_def)

lemma example_insert_eq: "example_insert = (Some example_stored, example_store)"
proof -
  have "fst example_insert \<noteq> None" by code_simp
  then show ?thesis by (cases example_insert) (auto simp: example_stored_def example_store_def)
qed

lemma example_run: "store_run http_example 1 example_ttl example_store {(example_exchange, example_stored)}"
proof -
  have "store_run http_example 1 example_ttl example_store
      (case Some example_stored of None \<Rightarrow> {} | Some r \<Rightarrow> insert (example_exchange, r) {})"
  proof (rule run_insert [OF run_new moka_example_sound])
    show "generation_left (store_new 1 example_ttl)"
      by (simp add: generation_left_def store_new_def Let_def)
    show "system_time_range (ex_wall example_exchange)"
      by (simp add: system_time_range_def example_exchange_def)
    show "exchange_storable http_example example_exchange 200" by (rule example_exchange_storable)
    show "insert_response (moka_example example_ttl) (store_new 1 example_ttl) 1000
        (ex_primary example_exchange) (ex_vary example_exchange) (ex_storable example_exchange) 200
        example_response ''hello'' = (Some example_stored, example_store)"
      using example_insert_eq by (simp add: example_insert_def) (simp add: example_exchange_def)
  qed
  then show ?thesis by simp
qed

lemma example_lookup:
  "lookup (moka_example example_ttl) example_store 2000 example_key [] (Some (from_secs 20)) =
     Inr (Some (Fresh example_stored))"
  by code_simp

lemma example_lookup_other:
  "lookup (moka_example example_ttl) example_store 2000 example_key [(''accept'', ''text/html'')] None = Inr None"
  by code_simp

end
