(* ===== verification/Proxy_World.thy ===== *)
theory Proxy_World
  imports Proxy_Cases Store_Correct
begin

text \<open>
  All the handlers of the proxy running together. A handler is one of the suspended states that
  a request, a streaming body or a background revalidation can be in; a step of the world runs
  one section of one handler on the shared application state, in any order. The environment
  chooses the clock, the answers of the moka caches, the origin's outcomes and the polls of the
  bodies. A client that goes away drops its handler at the await point it has reached.
  The lemmas show that the store of a reachable world is a run of the store, that every stored
  response a handler holds belongs to its request, and that the flights in the table are exactly
  those that a handler holds.
\<close>

section \<open>Handlers and steps\<close>

datatype handler =
    Arrived http_request
  | Waiting http_request channel instant
  | Departing http_request to_origin
  | AtOrigin origin_exchange
  | Streaming streamed
  | Refreshing background_task
  | Collecting collecting

definition policy_of :: "http_lib \<Rightarrow> http_request \<Rightarrow> request_policy" where
  "policy_of L req = request_policy_new L (rq_method req) (rq_headers req)"

type_synonym served = "(http_request \<times> response) list"

definition spawned :: "background_task option \<Rightarrow> handler list" where
  "spawned task = (case task of None \<Rightarrow> [] | Some t \<Rightarrow> [Refreshing t])"

fun body_handlers :: "response_body \<Rightarrow> handler list" where
  "body_handlers (FullBody s) = []"
| "body_handlers (SizedBody n sb) = [Streaming sb]"
| "body_handlers (StreamingBody sb) = [Streaming sb]"

text \<open>\<open>respond\<close> is the end of \<open>forward_to_upstream\<close>, \<open>proceed\<close> what a handler does next after the cache.\<close>

definition respond ::
  "http_lib \<Rightarrow> http_request \<Rightarrow> response \<Rightarrow> app_state \<Rightarrow> app_state \<times> handler list \<times> served" where
  "respond L req r app = (observe_response (policy_of L req) r app, body_handlers (rs_body r), [(req, r)])"

fun proceed ::
  "http_lib \<Rightarrow> http_request \<Rightarrow> before \<Rightarrow> app_state \<Rightarrow> app_state \<times> handler list \<times> served" where
  "proceed L req (Answer r) app = respond L req r app"
| "proceed L req (Origin to) app = (app, [Departing req to], [])"
| "proceed L req (WaitFor c deadline) app = (app, [Waiting req c deadline], [])"

definition environment :: "duration \<Rightarrow> moka \<Rightarrow> system_time \<Rightarrow> app_state \<Rightarrow> bool" where
  "environment ttl M wall app \<longleftrightarrow>
     moka_sound ttl M \<and> system_time_range wall \<and> generation_left (ap_cache app)"

inductive handler_step ::
  "http_lib \<Rightarrow> hyper_lib \<Rightarrow> duration \<Rightarrow> app_state \<Rightarrow> handler \<Rightarrow> app_state \<Rightarrow> handler list \<Rightarrow> served \<Rightarrow> bool"
  for L Y ttl where
  serve: "environment ttl M wall app \<Longrightarrow>
    serve_from_cache L Y M now req (cache_key_of L req) (policy_of L req) app = Inr (b, task, app1) \<Longrightarrow>
    proceed L req b app1 = (app', hs, out) \<Longrightarrow>
    handler_step L Y ttl app (Arrived req) app' (hs @ spawned task) out"
| woken: "environment ttl M wall app \<Longrightarrow>
    serve_after_wait L Y M now req (cache_key_of L req) (policy_of L req) app = Inr (b, task, app1) \<Longrightarrow>
    proceed L req b app1 = (app', hs, out) \<Longrightarrow>
    timer_documented sleep \<Longrightarrow> wait_for_leader sleep (ap_flights app) c deadline now \<Longrightarrow>
    handler_step L Y ttl app (Waiting req c deadline) app' (hs @ spawned task) out"
| refuse: "depart L Y req (cache_key_of L req) (policy_of L req) to payload ch app = (Refused r, app1) \<Longrightarrow>
    respond L req r app1 = (app', hs, out) \<Longrightarrow>
    handler_step L Y ttl app (Departing req to) app' hs out"
| send: "depart L Y req (cache_key_of L req) (policy_of L req) to payload ch app = (Sent x parts body, app') \<Longrightarrow>
    handler_step L Y ttl app (Departing req to) app' [AtOrigin x] []"
| arrived: "environment ttl M wall app \<Longrightarrow>
    arrive L Y M wall now x outcome app = Inr (r, app1) \<Longrightarrow>
    respond L (xc_req x) r app1 = (app', hs, out) \<Longrightarrow>
    handler_step L Y ttl app (AtOrigin x) app' hs out"
| poll: "environment ttl M wall app \<Longrightarrow>
    poll_streamed sleep M now sb inner app = Inr (item, sb', app') \<Longrightarrow>
    handler_step L Y ttl app (Streaming sb) app' [Streaming sb'] []"
| end_body: "environment ttl M wall app \<Longrightarrow>
    handler_step L Y ttl app (Streaming sb) (drop_streamed M now sb app) [] []"
| background: "environment ttl M wall app \<Longrightarrow>
    background_arrive L Y M wall now t outcome app = (cl, app') \<Longrightarrow>
    handler_step L Y ttl app (Refreshing t) app' (case cl of None \<Rightarrow> [] | Some c \<Rightarrow> [Collecting c]) []"
| collect: "environment ttl M wall app \<Longrightarrow>
    poll_collecting Y sleep M now cl inner app = Inr (cl', app') \<Longrightarrow>
    handler_step L Y ttl app (Collecting cl) app' (case cl' of None \<Rightarrow> [] | Some c \<Rightarrow> [Collecting c]) []"
| cancel_waiting: "handler_step L Y ttl app (Waiting req c deadline) app [] []"
| cancel_departing: "handler_step L Y ttl app (Departing req to) (drop_flight (to_flight to) app) [] []"
| cancel_at_origin: "handler_step L Y ttl app (AtOrigin x) (drop_flight (xc_flight x) app) [] []"

record world =
  w_app :: app_state
  w_handlers :: "handler list"
  w_served :: served

text \<open>Besides the proxy's handlers, \<open>/assets\<close> stores files, \<open>/health\<close> and \<open>/metrics\<close> read the
  store's counts, and all of them update metrics.\<close>

inductive world_step :: "http_lib \<Rightarrow> hyper_lib \<Rightarrow> duration \<Rightarrow> world \<Rightarrow> world \<Rightarrow> bool"
  for L Y ttl where
  request: "world_step L Y ttl w (w\<lparr>w_handlers := w_handlers w @ [Arrived req]\<rparr>)"
| handle: "w_handlers w = hs1 @ h # hs2 \<Longrightarrow> handler_step L Y ttl (w_app w) h app' hs out \<Longrightarrow>
    world_step L Y ttl w \<lparr>w_app = app', w_handlers = hs1 @ hs @ hs2, w_served = w_served w @ out\<rparr>"
| store_asset: "world_step L Y ttl w
    (w\<lparr>w_app := (w_app w)\<lparr>ap_cache := snd (insert_asset (ap_cache (w_app w)) now path content etag modified)\<rparr>\<rparr>)"
| read_count: "world_step L Y ttl w
    (w\<lparr>w_app := (w_app w)\<lparr>ap_cache := snd (entry_count M (ap_cache (w_app w)) now)\<rparr>\<rparr>)"
| read_size: "world_step L Y ttl w
    (w\<lparr>w_app := (w_app w)\<lparr>ap_cache := snd (weighted_size M (ap_cache (w_app w)) now)\<rparr>\<rparr>)"
| count_other: "world_step L Y ttl w (w\<lparr>w_app := count f (w_app w)\<rparr>)"

definition initial_world :: "nat \<Rightarrow> duration \<Rightarrow> world \<Rightarrow> bool" where
  "initial_world mb ttl w \<longleftrightarrow>
     ap_cache (w_app w) = store_new mb ttl \<and> ap_flights (w_app w) = flights_default \<and>
     w_handlers w = [] \<and> w_served w = []"

inductive world_reach :: "http_lib \<Rightarrow> hyper_lib \<Rightarrow> nat \<Rightarrow> duration \<Rightarrow> world \<Rightarrow> bool"
  for L Y mb ttl where
  start: "initial_world mb ttl w \<Longrightarrow> world_reach L Y mb ttl w"
| step: "world_reach L Y mb ttl w \<Longrightarrow> world_step L Y ttl w w' \<Longrightarrow> world_reach L Y mb ttl w'"

section \<open>The store of a world is a run of the store\<close>

text \<open>Every exchange of the history was one for a request of a client.\<close>

definition requested :: "http_lib \<Rightarrow> (exchange \<times> stored_response) set \<Rightarrow> bool" where
  "requested L H \<longleftrightarrow>
     (\<forall>x r. (x, r) \<in> H \<longrightarrow> (\<exists>req. ex_primary x = cache_key_of L req \<and> ex_request x = rq_headers req \<and>
        ex_policy x = policy_of L req))"

definition history :: "http_lib \<Rightarrow> nat \<Rightarrow> duration \<Rightarrow> store \<Rightarrow> (exchange \<times> stored_response) set \<Rightarrow> bool" where
  "history L mb ttl s H \<longleftrightarrow> store_run L mb ttl s H \<and> requested L H"

definition storing_ok :: "http_lib \<Rightarrow> storing \<Rightarrow> status_code \<Rightarrow> bool" where
  "storing_ok L sg status \<longleftrightarrow>
     (\<exists>req wall response. sg_key sg = cache_key_of L req \<and> system_time_range wall \<and>
        storable L wall (policy_of L req) (rq_headers req) status response = Some (sg_storable sg, sg_vary sg))"

text \<open>A stored response that may answer a request: it is in the history for the request's key, from
  an exchange that was storable, whose request had the same values for the headers it varies on.\<close>

definition answer_ok ::
  "http_lib \<Rightarrow> (exchange \<times> stored_response) set \<Rightarrow> http_request \<Rightarrow> stored_response \<Rightarrow> bool" where
  "answer_ok L H req r \<longleftrightarrow>
     (\<exists>x. (x, r) \<in> H \<and> ex_primary x = cache_key_of L req \<and> exchange_storable L x (sr_status r) \<and>
        vary_values (vk_names (ex_vary x)) (rq_headers req) =
          vary_values (vk_names (ex_vary x)) (ex_request x))"

definition entry_ok :: "http_lib \<Rightarrow> (exchange \<times> stored_response) set \<Rightarrow> http_request \<Rightarrow> stale_entry \<Rightarrow> bool" where
  "entry_ok L H req e \<longleftrightarrow> rk_primary (se_key e) = cache_key_of L req \<and> answer_ok L H req (se_response e)"

fun handler_ok :: "http_lib \<Rightarrow> (exchange \<times> stored_response) set \<Rightarrow> handler \<Rightarrow> bool" where
  "handler_ok L H (Arrived req) \<longleftrightarrow> True"
| "handler_ok L H (Waiting req c deadline) \<longleftrightarrow> True"
| "handler_ok L H (Departing req to) \<longleftrightarrow> (\<forall>e. to_stale to = Some e \<longrightarrow> entry_ok L H req e)"
| "handler_ok L H (AtOrigin x) \<longleftrightarrow>
     xc_key x = cache_key_of L (xc_req x) \<and> xc_policy x = policy_of L (xc_req x) \<and>
     (\<forall>e. xc_stale x = Some e \<longrightarrow> entry_ok L H (xc_req x) e)"
| "handler_ok L H (Streaming sb) \<longleftrightarrow>
     (\<forall>sg status headers. sb_finish sb = Some (sg, status, headers) \<longrightarrow> storing_ok L sg status)"
| "handler_ok L H (Refreshing t) \<longleftrightarrow>
     bt_key t = cache_key_of L (bt_req t) \<and> entry_ok L H (bt_req t) (bt_entry t)"
| "handler_ok L H (Collecting cl) \<longleftrightarrow> storing_ok L (cl_storing cl) (cl_status cl)"

definition from_the_cache :: "response \<Rightarrow> bool" where
  "from_the_cache r \<longleftrightarrow>
     cache_label r = Some HIT \<or> cache_label r = Some STALE \<or> cache_label r = Some COALESCED \<or>
     cache_label r = Some REVALIDATED"

definition served_ok ::
  "http_lib \<Rightarrow> (exchange \<times> stored_response) set \<Rightarrow> http_request \<times> response \<Rightarrow> bool" where
  "served_ok L H q \<longleftrightarrow>
     (from_the_cache (snd q) \<longrightarrow> (\<exists>r. answer_ok L H (fst q) r \<and> rs_status (snd q) = sr_status r \<and>
        rs_body (snd q) = FullBody (sr_body r)))"

lemma ok_mono:
  assumes "H \<subseteq> H'"
  shows "answer_ok L H req r \<Longrightarrow> answer_ok L H' req r"
    and "entry_ok L H req e \<Longrightarrow> entry_ok L H' req e"
    and "handler_ok L H h \<Longrightarrow> handler_ok L H' h"
    and "served_ok L H q \<Longrightarrow> served_ok L H' q"
proof -
  show a: "answer_ok L H req r \<Longrightarrow> answer_ok L H' req r" for req r
    using assms unfolding answer_ok_def by blast
  show e: "entry_ok L H req e \<Longrightarrow> entry_ok L H' req e" for req e
    using a unfolding entry_ok_def by blast
  show "handler_ok L H h \<Longrightarrow> handler_ok L H' h" by (cases h) (auto intro: e)
  show "served_ok L H q \<Longrightarrow> served_ok L H' q" using a unfolding served_ok_def by blast
qed

lemma app_simps [simp]:
  "ap_cache (drop_flight fl app) = ap_cache app"
  "ap_cache (count f app) = ap_cache app"
  "ap_cache (drop_refresh k app) = drop_refresh_guard (ap_cache app) k"
  "ap_flights (count f app) = ap_flights app"
  "ap_flights (drop_refresh k app) = ap_flights app"
  "ap_cache (observe_response policy r app) = ap_cache app"
  "ap_flights (observe_response policy r app) = ap_flights app"
  "ap_cache (send_to_origin kind outcome app) = ap_cache app"
  "ap_flights (send_to_origin kind outcome app) = ap_flights app"
  by (simp_all add: drop_flight_def count_def drop_refresh_def observe_response_def send_to_origin_def Let_def
      split: option.split origin_outcome.split)

lemma environment_cong: "ap_cache app' = ap_cache app \<Longrightarrow> environment ttl M wall app' = environment ttl M wall app"
  by (simp add: environment_def)

lemma history_quiet [intro]:
  assumes "history L mb ttl s H"
  shows "history L mb ttl (invalidate s p) H"
    and "history L mb ttl (snd (start_refresh s e)) H"
    and "history L mb ttl (drop_refresh_guard s k) H"
    and "history L mb ttl (snd (insert_asset s now path content etag modified)) H"
    and "history L mb ttl (snd (entry_count M s now)) H"
    and "history L mb ttl (snd (weighted_size M s now)) H"
  using assms unfolding history_def
  by (auto intro: run_invalidate run_start_refresh run_drop_guard run_asset run_count run_size)

lemma requested_insert:
  "requested L H \<Longrightarrow> ex_primary x = cache_key_of L req \<Longrightarrow> ex_request x = rq_headers req \<Longrightarrow>
   ex_policy x = policy_of L req \<Longrightarrow> requested L (insert (x, r) H)"
  unfolding requested_def by blast

lemma finish_storing_history:
  assumes hist: "history L mb ttl (ap_cache app) H" and env: "environment ttl M wall app"
    and ok: "storing_ok L sg status"
  shows "\<exists>H'. H \<subseteq> H' \<and> history L mb ttl (ap_cache (finish_storing M now sg status headers body app)) H'"
proof -
  obtain req w response where sg: "sg_key sg = cache_key_of L req" "system_time_range w"
    "storable L w (policy_of L req) (rq_headers req) status response = Some (sg_storable sg, sg_vary sg)"
    using ok unfolding storing_ok_def by blast
  define x where "x = \<lparr>ex_primary = sg_key sg, ex_policy = policy_of L req, ex_request = rq_headers req,
    ex_response = response, ex_wall = w, ex_storable = sg_storable sg, ex_vary = sg_vary sg\<rparr>"
  have x: "exchange_storable L x status" "system_time_range (ex_wall x)"
    using sg by (simp_all add: exchange_storable_def x_def)
  obtain ret s' where ins: "insert_response M (ap_cache app) now (ex_primary x) (ex_vary x) (ex_storable x)
      status headers body = (ret, s')" by (cases "insert_response M (ap_cache app) now (ex_primary x) (ex_vary x)
        (ex_storable x) status headers body")
  have run: "store_run L mb ttl s' (case ret of None \<Rightarrow> H | Some r \<Rightarrow> insert (x, r) H)"
    using run_insert [OF _ _ _ x(2,1) ins] hist env by (simp add: history_def environment_def)
  have "requested L (case ret of None \<Rightarrow> H | Some r \<Rightarrow> insert (x, r) H)"
    using hist requested_insert [of L H x req] sg(1) by (auto simp: history_def x_def split: option.split)
  then have "history L mb ttl s' (case ret of None \<Rightarrow> H | Some r \<Rightarrow> insert (x, r) H)"
    using run by (simp add: history_def)
  moreover have "ap_cache (finish_storing M now sg status headers body app) = s'"
    using ins by (simp add: finish_storing_def x_def)
  ultimately show ?thesis by (auto split: option.splits)
qed

lemma settle_history:
  assumes "history L mb ttl (ap_cache app) H" and "environment ttl M wall app"
    and "\<And>sg status headers. fin = Some (sg, status, headers) \<Longrightarrow> storing_ok L sg status"
  shows "\<exists>H'. H \<subseteq> H' \<and> history L mb ttl (ap_cache (settle M now fin ev app)) H'"
  using assms finish_storing_history [OF assms(1,2)]
  by (auto simp: settle_def split: option.split copy_event.split)

lemma freshen_history:
  assumes hist: "history L mb ttl s H" and M: "moka_sound ttl M" and wall: "system_time_range wall"
    and left: "generation_left s" and e: "rk_primary (se_key e) = cache_key_of L req"
  shows "\<exists>H'. H \<subseteq> H' \<and> history L mb ttl
    (snd (freshen L M s wall now e (policy_of L req) (rq_headers req) update age)) H'"
proof -
  let ?x = "freshen_exchange L M s wall now e (policy_of L req) (rq_headers req) update age"
  obtain r s' where f: "freshen L M s wall now e (policy_of L req) (rq_headers req) update age = (r, s')"
    by (cases "freshen L M s wall now e (policy_of L req) (rq_headers req) update age")
  have run: "store_run L mb ttl s' (case ?x of None \<Rightarrow> H | Some x \<Rightarrow> insert (x, r) H)"
    using run_freshen [OF _ M left wall f] hist by (simp add: history_def)
  have "?x = Some x \<Longrightarrow> ex_primary x = cache_key_of L req \<and> ex_request x = rq_headers req \<and> ex_policy x = policy_of L req" for x
    using e by (auto simp: freshen_exchange_def split: option.splits if_splits)
  then have "requested L (case ?x of None \<Rightarrow> H | Some x \<Rightarrow> insert (x, r) H)"
    using hist requested_insert [of L H] by (auto simp: history_def split: option.split)
  then have "history L mb ttl s' (case ?x of None \<Rightarrow> H | Some x \<Rightarrow> insert (x, r) H)"
    using run by (simp add: history_def)
  then show ?thesis using f by (auto split: option.splits)
qed

section \<open>Sections preserve the history\<close>

lemma cached_response_Inr:
  "cached_response stored now label = Inr r \<Longrightarrow>
     rs_status r = sr_status stored \<and> rs_body r = FullBody (sr_body stored)"
  by (auto simp: cached_response_def split: sum.splits)

lemma served_okI:
  "answer_ok L H req stored \<Longrightarrow> cached_response stored now label = Inr r \<Longrightarrow> served_ok L H (req, r)"
  unfolding served_ok_def by (auto dest: cached_response_Inr)

lemma lookup_answer_ok:
  assumes "history L mb ttl s H" and "http_date_documented L" and "moka_sound ttl M"
    and "lookup M s now (cache_key_of L req) (rq_headers req) oldest = Inr (Some res)"
  shows "answer_ok L H req (result_response res)"
    and "res = Stale e \<Longrightarrow> entry_ok L H req e"
proof -
  have "store_inv L s H" using assms(1,2) by (auto simp: history_def intro: store_run_inv)
  from lookup_recorded [OF this assms(3,4)] show a: "answer_ok L H req (result_response res)"
    unfolding answer_ok_def by blast
  show "entry_ok L H req e" if "res = Stale e"
  proof -
    have "rk_primary (se_key e) = cache_key_of L req"
      using assms(4) that by (auto elim!: lookup_Inr simp: lookup_key_def)
    then show ?thesis using a that by (simp add: entry_ok_def)
  qed
qed

lemma refresh_in_background_ok:
  assumes "refresh_in_background L Y req (cache_key_of L req) e app = (task, app1)"
    and "history L mb ttl (ap_cache app) H" and "entry_ok L H req e"
  shows "history L mb ttl (ap_cache app1) H" and "ap_flights app1 = ap_flights app"
    and "list_all (handler_ok L H) (spawned task)"
proof -
  obtain g s where st: "start_refresh (ap_cache app) e = (g, s)" by (cases "start_refresh (ap_cache app) e")
  then have s: "history L mb ttl s H" using history_quiet(2) [OF assms(2), of e] by simp
  then have d: "history L mb ttl (drop_refresh_guard s k) H" for k by (rule history_quiet(3))
  show "history L mb ttl (ap_cache app1) H" "ap_flights app1 = ap_flights app"
    "list_all (handler_ok L H) (spawned task)"
    using assms(1,3) st s d
    by (auto simp: refresh_in_background_def Let_def spawned_def split: option.splits prod.splits)
qed

text \<open>What the cache hands to a request: an answer from an exchange for it, or its entry to revalidate.\<close>

fun cached_ok :: "http_lib \<Rightarrow> (exchange \<times> stored_response) set \<Rightarrow> http_request \<Rightarrow> cached \<Rightarrow> bool" where
  "cached_ok L H req (CachedAnswer r) \<longleftrightarrow> served_ok L H (req, r) \<and> body_handlers (rs_body r) = []"
| "cached_ok L H req (CachedStale e) \<longleftrightarrow> entry_ok L H req e"
| "cached_ok L H req CachedNothing \<longleftrightarrow> True"

lemma while_revalidating_ok:
  assumes "while_revalidating L Y now req (cache_key_of L req) policy e app = Inr (c, task, app1)"
    and "history L mb ttl (ap_cache app) H" and "entry_ok L H req e"
  shows "history L mb ttl (ap_cache app1) H \<and> ap_flights app1 = ap_flights app \<and>
    list_all (handler_ok L H) (spawned task) \<and> cached_ok L H req c"
proof (cases "\<not> may_serve_stale policy \<or> \<not> may_serve_while_revalidating (se_response e) now")
  case True
  then show ?thesis using assms by (auto simp: while_revalidating_def spawned_def)
next
  case False
  with assms(1) obtain r where r: "cached_response (se_response e) now STALE = Inr r" "c = CachedAnswer r"
    "refresh_in_background L Y req (cache_key_of L req) e app = (task, app1)"
    by (auto simp: while_revalidating_def split: sum.splits)
  have "served_ok L H (req, r)" using served_okI [OF _ r(1)] assms(3) by (simp add: entry_ok_def)
  then show ?thesis
    using r(2) cached_response_Inr [OF r(1)] refresh_in_background_ok [OF r(3) assms(2,3)] by simp
qed

lemma from_cache_ok:
  assumes "from_cache L Y M now req (cache_key_of L req) policy use app = Inr (c, task, app1)"
    and hist: "history L mb ttl (ap_cache app) H" and L: "http_date_documented L" and M: "moka_sound ttl M"
  shows "history L mb ttl (ap_cache app1) H \<and> ap_flights app1 = ap_flights app \<and>
    list_all (handler_ok L H) (spawned task) \<and> cached_ok L H req c"
  using assms(1)
proof (cases rule: from_cache_cases)
  case nothing_found
  then show ?thesis using hist by (simp add: spawned_def)
next
  case (fresh_found stored r)
  then show ?thesis
    using served_okI [OF _ fresh_found(3)] lookup_answer_ok(1) [OF hist L M fresh_found(2)]
      cached_response_Inr [OF fresh_found(3)] hist by (simp add: spawned_def)
next
  case (stale_found e)
  show ?thesis
    by (rule while_revalidating_ok [OF stale_found(4) hist lookup_answer_ok(2) [OF hist L M stale_found(3) refl]])
qed

fun before_ok :: "http_lib \<Rightarrow> (exchange \<times> stored_response) set \<Rightarrow> http_request \<Rightarrow> before \<Rightarrow> bool" where
  "before_ok L H req (Answer r) \<longleftrightarrow> served_ok L H (req, r) \<and> body_handlers (rs_body r) = []"
| "before_ok L H req (Origin to) \<longleftrightarrow> handler_ok L H (Departing req to)"
| "before_ok L H req (WaitFor c deadline) \<longleftrightarrow> True"

lemma cached_or_ok:
  "cached_or c fl app = (b, app1) \<Longrightarrow> cached_ok L H req c \<Longrightarrow> ap_cache app1 = ap_cache app \<and> before_ok L H req b"
  by (cases c) auto

lemma join_flight_cache: "join_flight M now req key policy app = (j, app1) \<Longrightarrow> ap_cache app1 = ap_cache app"
  by (auto simp: join_flight_def split: if_splits option.splits prod.splits)

lemma serve_after_wait_ok:
  assumes "serve_after_wait L Y M now req (cache_key_of L req) policy app = Inr (b, task, app1)"
    and "history L mb ttl (ap_cache app) H" and "http_date_documented L" and "moka_sound ttl M"
  shows "history L mb ttl (ap_cache app1) H \<and> list_all (handler_ok L H) (spawned task) \<and> before_ok L H req b"
proof -
  from assms(1) obtain c app2 where c: "from_cache L Y M now req (cache_key_of L req) policy Coalesced app = Inr (c, task, app2)"
    "cached_or c None app2 = (b, app1)"
    by (auto simp: serve_after_wait_def split: sum.splits prod.splits)
  from from_cache_ok [OF c(1) assms(2-4)] cached_or_ok [OF c(2)] show ?thesis by auto
qed

lemma serve_from_cache_ok:
  assumes serve: "serve_from_cache L Y M now req (cache_key_of L req) policy app = Inr (b, task, app1)"
    and hist: "history L mb ttl (ap_cache app) H" and L: "http_date_documented L" and M: "moka_sound ttl M"
  shows "history L mb ttl (ap_cache app1) H \<and> list_all (handler_ok L H) (spawned task) \<and> before_ok L H req b"
proof -
  from serve obtain c task1 app2 where c: "from_cache L Y M now req (cache_key_of L req) policy Hit app = Inr (c, task1, app2)"
    by (auto simp: serve_from_cache_def split: sum.splits)
  obtain b1 app3 where b1: "cached_or c None app2 = (b1, app3)" by (cases "cached_or c None app2")
  have app3: "history L mb ttl (ap_cache app3) H" "list_all (handler_ok L H) (spawned task1)" "before_ok L H req b1"
    using from_cache_ok [OF c hist L M] cached_or_ok [OF b1] by auto
  show ?thesis
  proof (cases b1)
    case (Origin to)
    obtain j app4 where j: "join_flight M now req (cache_key_of L req) policy app3 = (j, app4)"
      by (cases "join_flight M now req (cache_key_of L req) policy app3")
    have app4: "history L mb ttl (ap_cache app4) H" using app3(1) join_flight_cache [OF j] by simp
    show ?thesis
    proof (cases j)
      case (Lead g)
      with serve c b1 Origin j obtain c' app5 where
        c': "from_cache L Y M now req (cache_key_of L req) policy Hit app4 = Inr (c', task, app5)"
          "cached_or c' (Some g) app5 = (b, app1)"
        by (auto simp: serve_from_cache_def split: sum.splits prod.splits)
      from from_cache_ok [OF c'(1) app4 L M] cached_or_ok [OF c'(2)] show ?thesis by auto
    qed (use serve c b1 Origin j app3 app4 in \<open>auto simp: serve_from_cache_def\<close>)
  qed (use serve c b1 app3 in \<open>auto simp: serve_from_cache_def\<close>)
qed

lemma cache_label_miss: "cache_label \<lparr>rs_status = s, rs_headers = miss_headers fs, rs_body = b\<rparr> = Some MISS"
proof -
  have "get (miss_headers fs) CACHE_STATUS = Some MISS"
    by (simp add: get_def miss_headers_def)
  then show ?thesis by (simp add: cache_label_def CACHE_STATUS_def CACHE_LABELS_def label_defs)
qed

lemma not_from_the_cache:
  "\<not> from_the_cache \<lparr>rs_status = s, rs_headers = miss_headers fs, rs_body = b\<rparr>"
  "\<not> from_the_cache (error_response L status)"
  unfolding from_the_cache_def cache_label_miss error_response_def
  by (simp_all add: label_defs cache_label_def get_def)

lemma store_plan_ok:
  assumes "store_plan L wall req (cache_key_of L req) (policy_of L req) h app = (store, app1)"
    and "history L mb ttl (ap_cache app) H" and "system_time_range wall"
  shows "history L mb ttl (ap_cache app1) H" and "ap_flights app1 = ap_flights app"
    and "generation_left (ap_cache app1) = generation_left (ap_cache app)"
    and "store = Some sg \<Longrightarrow> storing_ok L (sg\<lparr>sg_flight := fl\<rparr>) (hd_status h) \<and> storing_ok L sg (hd_status h)"
proof -
  show "history L mb ttl (ap_cache app1) H" "ap_flights app1 = ap_flights app"
    "generation_left (ap_cache app1) = generation_left (ap_cache app)"
    using assms(1,2) history_quiet(1) [OF assms(2)]
    by (auto simp: store_plan_def Let_def generation_left_def invalidate_def split: option.splits if_splits)
  assume "store = Some sg"
  then have "sg_key sg = cache_key_of L req"
    "storable L wall (policy_of L req) (rq_headers req) (hd_status h) (hd_fields h) = Some (sg_storable sg, sg_vary sg)"
    using assms(1) by (auto simp: store_plan_def Let_def split: option.splits)
  then show "storing_ok L (sg\<lparr>sg_flight := fl\<rparr>) (hd_status h) \<and> storing_ok L sg (hd_status h)"
    using assms(3) unfolding storing_ok_def by auto
qed

lemma client_response_ok:
  assumes "client_response L M now h idle store app = (r, app1)"
    and hist: "history L mb ttl (ap_cache app) H" and env: "environment ttl M wall app"
    and sg: "\<And>sg. store = Some sg \<Longrightarrow> storing_ok L sg (hd_status h)"
  shows "\<exists>H'. H \<subseteq> H' \<and> history L mb ttl (ap_cache app1) H' \<and>
    list_all (handler_ok L H') (body_handlers (rs_body r)) \<and> \<not> from_the_cache r"
proof -
  define len where "len = content_length L h"
  define kept where "kept = Option.bind store (\<lambda>sg. if len = None \<or> the len \<le> sg_limit sg then Some sg else None)"
  define app2 where "app2 = (if kept = None then drop_flight (Option.bind store sg_flight) app else app)"
  define fin where "fin = map_option (\<lambda>sg. (sg, hd_status h, stored_fields (forwardable_fields L h))) kept"
  obtain ev tee where te: "tee_new len (map_option (\<lambda>sg. \<lparr>bc_buffer = [], bc_limit = sg_limit sg\<rparr>) kept) = (ev, tee)"
    by fastforce
  define sb where "sb = \<lparr>sb_idle = idle, sb_kind = Foreground, sb_tee = tee, sb_finish = fin\<rparr>"
  have eq: "app1 = settle M now fin ev app2"
    "r = \<lparr>rs_status = hd_status h, rs_headers = miss_headers (forwardable_fields L h),
          rs_body = (case len of Some n \<Rightarrow> SizedBody n sb | None \<Rightarrow> StreamingBody sb)\<rparr>"
    using assms(1) te
    unfolding client_response_def Let_def len_def kept_def app2_def fin_def sb_def by simp_all
  have fin: "fin = Some (g, st, hs) \<Longrightarrow> storing_ok L g st" for g st hs
    using sg by (auto simp: fin_def kept_def split: bind_splits if_splits)
  have "ap_cache app2 = ap_cache app" by (simp add: app2_def)
  then obtain H' where "H \<subseteq> H'" "history L mb ttl (ap_cache app1) H'"
    using settle_history [of L mb ttl app2 H M wall fin] hist env fin eq(1) environment_cong by metis
  moreover have "list_all (handler_ok L H') (body_handlers (rs_body r))"
    using fin by (auto simp: eq(2) sb_def split: option.split)
  ultimately show ?thesis unfolding eq(2) using not_from_the_cache(1) by blast
qed

text \<open>The outcome of a section: the history may have grown, and what it leaves and serves is in order.\<close>

definition step_ok ::
  "http_lib \<Rightarrow> nat \<Rightarrow> duration \<Rightarrow> (exchange \<times> stored_response) set \<Rightarrow> app_state \<Rightarrow> handler list \<Rightarrow> served \<Rightarrow> bool" where
  "step_ok L mb ttl H app hs out \<longleftrightarrow>
     (\<exists>H'. H \<subseteq> H' \<and> history L mb ttl (ap_cache app) H' \<and> list_all (handler_ok L H') hs \<and>
        list_all (served_ok L H') out)"

lemma step_okI:
  "H \<subseteq> H' \<Longrightarrow> history L mb ttl (ap_cache app) H' \<Longrightarrow> list_all (handler_ok L H') hs \<Longrightarrow>
   list_all (served_ok L H') out \<Longrightarrow> step_ok L mb ttl H app hs out"
  unfolding step_ok_def by blast

lemma step_ok_respond:
  assumes "step_ok L mb ttl H app1 (body_handlers (rs_body r)) [(req, r)]"
    and "respond L req r app1 = (app', hs, out)"
  shows "step_ok L mb ttl H app' hs out"
  using assms by (auto simp: respond_def step_ok_def)

lemma error_response_ok:
  "history L mb ttl (ap_cache app) H \<Longrightarrow>
   step_ok L mb ttl H app (body_handlers (rs_body (error_response L s))) [(req, error_response L s)]"
  using not_from_the_cache(2)
  by (intro step_okI [of H H]) (auto simp: served_ok_def error_response_def)

lemma cached_response_ok:
  assumes "cached_response stored now label = Inr r" and "answer_ok L H' req stored'"
    and "sr_status stored = sr_status stored'" and "sr_body stored = sr_body stored'"
    and "H \<subseteq> H'" and "history L mb ttl (ap_cache app) H'"
  shows "step_ok L mb ttl H app (body_handlers (rs_body r)) [(req, r)]"
  using cached_response_Inr [OF assms(1)] assms(2-6)
  by (intro step_okI [of H H']) (auto simp: served_ok_def)

lemma revalidated_ok:
  assumes rev: "revalidated L M wall now x e h app = Inr (r, app1)"
    and hist: "history L mb ttl (ap_cache app) H" and env: "environment ttl M wall app"
    and x: "xc_policy x = policy_of L (xc_req x)" and e: "entry_ok L H (xc_req x) e"
  shows "step_ok L mb ttl H app1 (body_handlers (rs_body r)) [(xc_req x, r)]"
proof -
  let ?u = "stored_fields (forwardable_fields L h)" and ?a = "get (hd_fields h) ''age''"
  obtain fresh s where f: "freshen L M (ap_cache app) wall now e (policy_of L (xc_req x)) (rq_headers (xc_req x)) ?u ?a =
      (fresh, s)" by (cases "freshen L M (ap_cache app) wall now e (policy_of L (xc_req x)) (rq_headers (xc_req x)) ?u ?a")
  with rev x have r: "cached_response fresh now REVALIDATED = Inr r" and app1: "ap_cache app1 = s"
    by (auto simp: revalidated_def split: sum.splits)
  obtain H' where H': "H \<subseteq> H'" "history L mb ttl s H'"
    using freshen_history [OF hist, of M wall e "xc_req x" now ?u ?a] env e f
    by (auto simp: environment_def entry_ok_def)
  have "answer_ok L H' (xc_req x) (se_response e)" using e ok_mono(1) [OF H'(1)] by (simp add: entry_ok_def)
  then show ?thesis
    using cached_response_ok [OF r _ _ _ H'(1)] freshen_result [OF f] H'(2) app1 by simp
qed

lemma stale_answer_ok:
  assumes "cached_response (se_response e) now STALE = Inr r" and "entry_ok L H req e"
    and "history L mb ttl (ap_cache app) H"
  shows "step_ok L mb ttl H app (body_handlers (rs_body r)) [(req, r)]"
  using cached_response_ok [OF assms(1) _ refl refl _ assms(3)] assms(2) by (auto simp: entry_ok_def)

lemma answered_ok:
  assumes ans: "answered L Y M wall now x ur app = Inr (r, app1)"
    and hist: "history L mb ttl (ap_cache app) H" and env: "environment ttl M wall app"
    and x: "handler_ok L H (AtOrigin x)"
  shows "step_ok L mb ttl H app1 (body_handlers (rs_body r)) [(xc_req x, r)]"
  using ans
proof (cases rule: answered_cases)
  case (stale_served e)
  then have e: "entry_ok L H (xc_req x) e" using x by simp
  show ?thesis using stale_answer_ok [OF _ e] stale_served hist by simp
next
  case (freshened e)
  then show ?thesis using revalidated_ok [OF _ hist env] x by simp
next
  case (forwarded store app2)
  let ?h = "head_from_upstream Y ur" and ?app3 = "forwarded_app x store app2"
  note sp = store_plan_ok [OF forwarded(1) [unfolded x [unfolded handler_ok.simps, THEN conjunct1]
      x [unfolded handler_ok.simps, THEN conjunct2, THEN conjunct1]] hist]
  have wall: "system_time_range wall" using env by (simp add: environment_def)
  have env3: "environment ttl M wall ?app3"
    using env sp(3) [OF wall] by (simp add: environment_def forwarded_app_def)
  have hist3: "history L mb ttl (ap_cache ?app3) H" using sp(1) [OF wall] by (simp add: forwarded_app_def)
  have sg3: "storing_ok L sg (hd_status ?h)" if "held_storing x store = Some sg" for sg
    using that sp(4) [OF wall] by (auto simp: held_storing_def)
  obtain H' where "H \<subseteq> H'" "history L mb ttl (ap_cache app1) H'"
    "list_all (handler_ok L H') (body_handlers (rs_body r))" "\<not> from_the_cache r"
    using client_response_ok [OF forwarded(2) hist3 env3 sg3, simplified] by (elim exE conjE)
  then show ?thesis by (intro step_okI [of H H']) (auto simp: served_ok_def)
qed

lemma failed_ok:
  assumes "failed L now x status app = Inr (r, app1)"
    and hist: "history L mb ttl (ap_cache app) H" and x: "handler_ok L H (AtOrigin x)"
  shows "step_ok L mb ttl H app1 (body_handlers (rs_body r)) [(xc_req x, r)]"
proof (cases "xc_stale x")
  case None
  then show ?thesis using assms(1) hist by (auto simp: failed_def intro!: error_response_ok)
next
  case (Some e)
  then have e: "entry_ok L H (xc_req x) e" using x by simp
  show ?thesis
  proof (cases "exchange_may_serve_on_error x e now")
    case True
    with assms(1) Some obtain r' where "cached_response (se_response e) now STALE = Inr r'" "r = r'"
      "app1 = drop_flight (xc_flight x) app"
      by (auto simp: failed_def split: sum.splits)
    then show ?thesis using stale_answer_ok [OF _ e] hist by simp
  next
    case False
    with assms(1) Some have "r = error_response L (if must_revalidate (se_response e) then 504 else status)"
      "app1 = drop_flight (xc_flight x) app" by (simp_all add: failed_def)
    then show ?thesis using hist error_response_ok by simp
  qed
qed

lemma arrive_ok:
  assumes "arrive L Y M wall now x outcome app = Inr (r, app1)"
    and "history L mb ttl (ap_cache app) H" and "environment ttl M wall app"
    and "handler_ok L H (AtOrigin x)"
  shows "step_ok L mb ttl H app1 (body_handlers (rs_body r)) [(xc_req x, r)]"
proof -
  have "environment ttl M wall (send_to_origin Foreground outcome app)"
    using assms(3) by (simp add: environment_def)
  then show ?thesis
    using assms answered_ok [of L Y M wall now x _ "send_to_origin Foreground outcome app"]
      failed_ok [of L now x _ "send_to_origin Foreground outcome app"]
    by (cases outcome) (simp_all add: arrive_def)
qed

lemma depart_ok:
  assumes "depart L Y req (cache_key_of L req) (policy_of L req) to payload ch app = (d, app1)"
    and "handler_ok L H (Departing req to)"
  shows "ap_cache app1 = ap_cache app"
    and "d = Refused r \<Longrightarrow> \<exists>s. r = error_response L s"
    and "d = Sent x parts body \<Longrightarrow> handler_ok L H (AtOrigin x)"
  using assms
  by (auto simp: depart_def Let_def split: option.splits prod.splits sum.splits)

lemma poll_streamed_Inr:
  assumes "poll_streamed sleep M now sb inner app = Inr (item, sb', app1)"
  obtains counted ev idle' tee' it where "tee_poll (sb_tee sb) it = (item, ev, tee')"
    and "app1 = settle M now (sb_finish sb) ev (if counted then count (idle_timeout_inc (sb_kind sb)) app else app)"
    and "sb' = sb\<lparr>sb_idle := idle', sb_tee := tee'\<rparr>"
proof -
  obtain it idle' counted where ip: "idle_poll sleep (sb_idle sb) now inner = Inr (it, idle', counted)"
    using assms by (auto simp: poll_streamed_def split: sum.splits)
  obtain out ev tee' where te: "tee_poll (sb_tee sb) it = (out, ev, tee')" by (cases "tee_poll (sb_tee sb) it")
  show ?thesis
    using assms unfolding poll_streamed_def ip sum.case prod.case Let_def te
    by (intro that [of it ev tee' counted idle']) (auto simp: te)
qed

lemma poll_streamed_ok:
  assumes "poll_streamed sleep M now sb inner app = Inr (item, sb', app1)"
    and "history L mb ttl (ap_cache app) H" and "environment ttl M wall app"
    and "handler_ok L H (Streaming sb)"
  shows "step_ok L mb ttl H app1 [Streaming sb'] []"
proof -
  obtain counted ev idle' tee' it where tee: "tee_poll (sb_tee sb) it = (item, ev, tee')"
    and app1: "app1 = settle M now (sb_finish sb) ev (if counted then count (idle_timeout_inc (sb_kind sb)) app else app)"
    and sb': "sb' = sb\<lparr>sb_idle := idle', sb_tee := tee'\<rparr>"
    by (rule poll_streamed_Inr [OF assms(1)])
  let ?app2 = "if counted then count (idle_timeout_inc (sb_kind sb)) app else app"
  have app2: "ap_cache ?app2 = ap_cache app" by simp
  obtain H' where H': "H \<subseteq> H'" "history L mb ttl (ap_cache app1) H'"
    using settle_history [of L mb ttl ?app2 H M wall "sb_finish sb"] assms(2-4) app2 app1 environment_cong [OF app2]
    by (metis handler_ok.simps(5))
  then show ?thesis using assms(4) sb' by (intro step_okI [of H H']) auto
qed

lemma drop_streamed_ok:
  assumes "history L mb ttl (ap_cache app) H" and "environment ttl M wall app"
    and "handler_ok L H (Streaming sb)"
  shows "step_ok L mb ttl H (drop_streamed M now sb app) [] []"
proof -
  obtain H' where "H \<subseteq> H'" "history L mb ttl (ap_cache (drop_streamed M now sb app)) H'"
    using settle_history [OF assms(1,2), of "sb_finish sb"] assms(3)
    unfolding drop_streamed_def by (metis handler_ok.simps(5))
  then show ?thesis by (intro step_okI [of H H']) auto
qed

lemma refresh_ok:
  assumes "refresh L Y M wall now t ur app = (cl, app1)"
    and hist: "history L mb ttl (ap_cache app) H" and env: "environment ttl M wall app"
    and t: "handler_ok L H (Refreshing t)"
  shows "step_ok L mb ttl H app1 (case cl of None \<Rightarrow> [] | Some c \<Rightarrow> [Collecting c]) []"
proof -
  define h where "h = head_from_upstream Y ur"
  let ?p = "policy_of L (bt_req t)" and ?fs = "stored_fields (forwardable_fields L h)"
  have wall: "system_time_range wall" using env by (simp add: environment_def)
  show ?thesis
  proof (cases "hd_status h = 304")
    case True
    let ?s = "snd (freshen L M (ap_cache app) wall now (bt_entry t) ?p (rq_headers (bt_req t)) ?fs (get (hd_fields h) ''age''))"
    obtain H' where "H \<subseteq> H'" "history L mb ttl ?s H'"
      using freshen_history [OF hist, of M wall "bt_entry t" "bt_req t" now ?fs "get (hd_fields h) ''age''"] env t
      by (auto simp: environment_def entry_ok_def)
    moreover have "cl = None" "ap_cache app1 = drop_refresh_guard ?s (bt_guard t)"
      using assms(1) True by (auto simp: refresh_def Let_def h_def [symmetric] policy_of_def)
    ultimately show ?thesis by (intro step_okI [of H H']) auto
  next
    case False
    obtain store app2 where plan: "store_plan L wall (bt_req t) (cache_key_of L (bt_req t)) ?p h app = (store, app2)"
      by (cases "store_plan L wall (bt_req t) (cache_key_of L (bt_req t)) ?p h app")
    note sp = store_plan_ok [OF plan hist wall]
    show ?thesis
      using assms(1) False plan t sp(1,4) history_quiet(3) [OF sp(1)]
      by (cases store; intro step_okI [of H H])
        (auto simp: refresh_def Let_def h_def [symmetric] policy_of_def [symmetric])
  qed
qed

lemma background_arrive_ok:
  assumes "background_arrive L Y M wall now t outcome app = (cl, app1)"
    and hist: "history L mb ttl (ap_cache app) H" and env: "environment ttl M wall app"
    and t: "handler_ok L H (Refreshing t)"
  shows "step_ok L mb ttl H app1 (case cl of None \<Rightarrow> [] | Some c \<Rightarrow> [Collecting c]) []"
proof (cases outcome)
  case (Responded ur took)
  have "environment ttl M wall (send_to_origin Background outcome app)" using env by (simp add: environment_def)
  then show ?thesis
    using refresh_ok [of L Y M wall now t ur "send_to_origin Background outcome app"] assms Responded
    by (simp add: background_arrive_def)
next
  case SendFailed
  then show ?thesis using assms(1) history_quiet(3) [OF hist]
    by (intro step_okI [of H H]) (auto simp: background_arrive_def)
next
  case HeadersTimedOut
  then show ?thesis using assms(1) history_quiet(3) [OF hist]
    by (intro step_okI [of H H]) (auto simp: background_arrive_def)
qed

lemma poll_collecting_ok:
  assumes "poll_collecting Y sleep M now cl inner app = Inr (cl', app1)"
    and hist: "history L mb ttl (ap_cache app) H" and env: "environment ttl M wall app"
    and cl: "handler_ok L H (Collecting cl)"
  shows "step_ok L mb ttl H app1 (case cl' of None \<Rightarrow> [] | Some c \<Rightarrow> [Collecting c]) []"
proof -
  obtain item idle' counted where ip: "idle_poll sleep (cl_idle cl) now inner = Inr (item, idle', counted)"
    using assms(1) by (auto simp: poll_collecting_def split: sum.splits)
  define app2 where "app2 = (if counted then count (idle_timeout_inc Background) app else app)"
  have app2: "ap_cache app2 = ap_cache app" by (simp add: app2_def)
  have env2: "environment ttl M wall app2" and hist2: "history L mb ttl (ap_cache app2) H"
    using env hist app2 environment_cong [OF app2] by simp_all
  have stay: ?thesis if "cl' = Some cl2" "app1 = app2" "cl_storing cl2 = cl_storing cl" "cl_status cl2 = cl_status cl" for cl2
    using that cl hist2 by (intro step_okI [of H H]) auto
  have stop: ?thesis if "cl' = None" "app1 = drop_refresh (cl_guard cl) app2"
    using that history_quiet(3) [OF hist2] by (intro step_okI [of H H]) auto
  note poll = assms(1) [unfolded poll_collecting_def ip sum.case prod.case Let_def app2_def [symmetric]]
  show ?thesis
  proof (cases item rule: poll_exhaust)
    case 1
    then show ?thesis using poll by (intro stay [of "cl\<lparr>cl_idle := idle'\<rparr>"]) auto
  next
    case (2 e)
    then show ?thesis using poll by (intro stop) auto
  next
    case 3
    obtain H' where "H \<subseteq> H'"
      "history L mb ttl (ap_cache (finish_storing M now (cl_storing cl) (cl_status cl) (cl_headers cl) (cl_buffer cl) app2)) H'"
      using finish_storing_history [OF hist2 env2, of "cl_storing cl" "cl_status cl" now "cl_headers cl" "cl_buffer cl"] cl
      by auto
    then show ?thesis using poll 3 by (intro step_okI [of H H']) auto
  next
    case (4 chunk)
    show ?thesis
    proof (cases "limited_ok Y (sg_limit (cl_storing cl)) (length (cl_buffer cl @ chunk))")
      case True
      then show ?thesis
        using poll 4 by (intro stay [of "cl\<lparr>cl_idle := idle', cl_buffer := cl_buffer cl @ chunk\<rparr>"]) auto
    next
      case False
      then show ?thesis using poll 4 by (intro stop) auto
    qed
  qed
qed

section \<open>The invariant of the world\<close>

lemma handler_step_ok:
  assumes "handler_step L Y ttl app h app' hs out" and L: "http_date_documented L"
    and hist: "history L mb ttl (ap_cache app) H" and h: "handler_ok L H h"
  shows "step_ok L mb ttl H app' hs out"
proof -
  have after: "step_ok L mb ttl H app2 (hs2 @ spawned task) out2"
    if "proceed L req b app1 = (app2, hs2, out2)" "before_ok L H req b"
      "history L mb ttl (ap_cache app1) H" "list_all (handler_ok L H) (spawned task)"
    for req b app1 app2 hs2 out2 task
    using that by (cases b; intro step_okI [of H H]) (auto simp: respond_def)
  from assms(1) show ?thesis
  proof (cases rule: handler_step.cases)
    case (serve M wall now req b task app1 hs0)
    have "moka_sound ttl M" using serve by (simp add: environment_def)
    from serve_from_cache_ok [OF serve(4) hist L this] show ?thesis
      using serve after by simp
  next
    case (woken M wall now req b task app1 hs0 sleep c deadline)
    have "moka_sound ttl M" using woken by (simp add: environment_def)
    from serve_after_wait_ok [OF woken(4) hist L this] show ?thesis
      using woken after by simp
  next
    case (refuse req to payload ch r app1)
    obtain s where "r = error_response L s" using depart_ok(2) [OF refuse(2)] refuse h by auto
    moreover have "history L mb ttl (ap_cache app1) H" using depart_ok(1) [OF refuse(2)] refuse h hist by simp
    ultimately show ?thesis using error_response_ok step_ok_respond [OF _ refuse(3)] by simp
  next
    case (send req to payload ch x parts body)
    then show ?thesis using depart_ok(1,3) [OF send(4)] h hist by (intro step_okI [of H H]) auto
  next
    case (arrived M wall now x outcome r app1)
    then show ?thesis using arrive_ok [OF arrived(3) hist arrived(2)] step_ok_respond h by simp
  next
    case (poll M wall sleep now sb inner item sb')
    then show ?thesis using poll_streamed_ok [OF poll(5) hist poll(4)] h by simp
  next
    case (end_body M wall sb now)
    then show ?thesis using drop_streamed_ok [OF hist end_body(5)] h by simp
  next
    case (background M wall now t outcome cl)
    then show ?thesis using background_arrive_ok [OF background(5) hist background(4)] h by simp
  next
    case (collect M wall sleep now cl inner cl')
    then show ?thesis using poll_collecting_ok [OF collect(5) hist collect(4)] h by simp
  qed (use hist in \<open>auto intro!: step_okI [of H H]\<close>)
qed

definition world_inv :: "http_lib \<Rightarrow> nat \<Rightarrow> duration \<Rightarrow> (exchange \<times> stored_response) set \<Rightarrow> world \<Rightarrow> bool" where
  "world_inv L mb ttl H w \<longleftrightarrow>
     history L mb ttl (ap_cache (w_app w)) H \<and> list_all (handler_ok L H) (w_handlers w) \<and>
     list_all (served_ok L H) (w_served w)"

lemma list_all_mono: "list_all P xs \<Longrightarrow> (\<And>x. P x \<Longrightarrow> Q x) \<Longrightarrow> list_all Q xs"
  by (simp add: list_all_iff)

lemma world_step_inv [invs]:
  assumes "world_step L Y ttl w w'" and L: "http_date_documented L" and inv: "world_inv L mb ttl H w"
  shows "\<exists>H'. H \<subseteq> H' \<and> world_inv L mb ttl H' w'"
  using assms(1)
proof (cases rule: world_step.cases)
  case (handle hs1 h hs2 app' hs out)
  have h: "handler_ok L H h" and hist: "history L mb ttl (ap_cache (w_app w)) H"
    using inv handle by (auto simp: world_inv_def)
  from handler_step_ok [OF handle(3) L hist h] obtain H' where H': "H \<subseteq> H'" "history L mb ttl (ap_cache app') H'"
    "list_all (handler_ok L H') hs" "list_all (served_ok L H') out"
    unfolding step_ok_def by blast
  have "list_all (handler_ok L H') hs1" "list_all (handler_ok L H') hs2" "list_all (served_ok L H') (w_served w)"
    using inv handle ok_mono(3,4) [OF H'(1)] by (auto simp: world_inv_def elim!: list_all_mono)
  then show ?thesis using H' handle by (auto simp: world_inv_def)
qed (use inv in \<open>auto simp: world_inv_def intro!: exI [of _ H]\<close>)

lemma world_reach_inv:
  assumes "world_reach L Y mb ttl w" and "http_date_documented L"
  shows "\<exists>H. world_inv L mb ttl H w"
  using assms(1)
proof (induction rule: world_reach.induct)
  case (start w)
  have "history L mb ttl (store_new mb ttl) {}" by (simp add: history_def requested_def run_new)
  then show ?case using start by (intro exI [of _ "{}"]) (simp add: world_inv_def initial_world_def)
next
  case (step w w')
  then show ?case using world_step_inv [OF step.hyps(2) assms(2)] by blast
qed

end
