(* ===== verification/Proxy_Flights.thy ===== *)
theory Proxy_Flights
  imports Proxy_World
begin

text \<open>
  The flights of the running proxy refine the flight model of \<^verbatim>\<open>Coalesce\<close>: the guards in the
  table are exactly the guards that a suspended handler holds, each held once, and every
  waiting handler follows a flight of that model. So the single-leader and no-lost-wakeup
  properties of the coalescer hold for the handlers of the proxy.
\<close>

section \<open>The guards that handlers hold\<close>

definition held_flight :: "flight option \<Rightarrow> flight list" where
  "held_flight fl = (case fl of None \<Rightarrow> [] | Some g \<Rightarrow> [g])"

lemma held_flight_simps [simp]: "held_flight None = []" "held_flight (Some g) = [g]"
  by (simp_all add: held_flight_def)

definition finish_flight :: "(storing \<times> status_code \<times> fields) option \<Rightarrow> flight option" where
  "finish_flight fin = Option.bind fin (\<lambda>(sg, _, _). sg_flight sg)"

fun guards_of :: "handler \<Rightarrow> flight list" where
  "guards_of (Departing req to) = held_flight (to_flight to)"
| "guards_of (AtOrigin x) = held_flight (xc_flight x)"
| "guards_of (Streaming sb) =
     (if te_copy (sb_tee sb) = None then [] else held_flight (finish_flight (sb_finish sb)))"
| "guards_of _ = []"

definition guards :: "handler list \<Rightarrow> flight list" where
  "guards hs = concat (map guards_of hs)"

lemma guards_simps [simp]:
  "guards [] = []" "guards (h # hs) = guards_of h @ guards hs" "guards (hs @ hs') = guards hs @ guards hs'"
  by (simp_all add: guards_def)

lemma guards_spawned [simp]: "guards (spawned task) = []"
  by (simp add: spawned_def split: option.split)

text \<open>How a section moves the flights: it leaves them, gives one up, takes one, or takes one and
  gives it up again.\<close>

definition flight_move ::
  "flight_key flights \<Rightarrow> flight list \<Rightarrow> flight_key flights \<Rightarrow> flight list \<Rightarrow> bool" where
  "flight_move f G f' G' \<longleftrightarrow>
     (f' = f \<and> G' = G) \<or> (\<exists>g. G = [g] \<and> G' = [] \<and> f' = drop_flight_guard f g) \<or>
     (\<exists>key g. G = [] \<and> flights_join f key True = (Lead g, f') \<and> G' = [g]) \<or>
     (\<exists>key g f1. G = [] \<and> flights_join f key True = (Lead g, f1) \<and> G' = [] \<and> f' = drop_flight_guard f1 g)"

lemma flight_move_same [simp, intro]: "flight_move f G f G"
  by (simp add: flight_move_def)

lemma flight_move_drop [intro]:
  "flight_move (ap_flights app) (held_flight fl) (ap_flights (drop_flight fl app)) []"
  by (cases fl) (auto simp: flight_move_def drop_flight_def)

lemma ap_flights_finish:
  "ap_flights (finish_storing M now sg status headers body app) = ap_flights (drop_flight (sg_flight sg) app)"
  by (simp add: finish_storing_def drop_flight_def split: option.split)

lemma settle_flights:
  "ap_flights (settle M now fin ev app) =
     (if ev = None then ap_flights app else ap_flights (drop_flight (finish_flight fin) app))"
  by (auto simp: settle_def finish_flight_def ap_flights_finish drop_flight_def split: option.split copy_event.split)

lemma tee_poll_copy_gone:
  assumes "tee_poll t p = (out, ev, t')"
  shows "te_copy t = None \<Longrightarrow> ev = None \<and> te_copy t' = None"
    and "te_copy t = Some c \<Longrightarrow> (ev = None) = (te_copy t' \<noteq> None)"
proof -
  show "ev = None \<and> te_copy t' = None" if "te_copy t = None"
    using tee_poll_no_copy [OF that, of p] assms that by simp
  have "snd (tee_poll t p) = (ev, t')" using assms by simp
  then show "(ev = None) = (te_copy t' \<noteq> None)" if "te_copy t = Some c"
    using that by (cases p rule: poll_exhaust) (auto simp: tee_poll_copy [OF that] split: if_splits)
qed

lemma poll_streamed_move:
  assumes "poll_streamed sleep M now sb inner app = Inr (item, sb', app1)"
  shows "flight_move (ap_flights app) (guards_of (Streaming sb)) (ap_flights app1) (guards_of (Streaming sb'))"
proof -
  obtain counted ev idle' tee' it where tee: "tee_poll (sb_tee sb) it = (item, ev, tee')"
    and app1: "app1 = settle M now (sb_finish sb) ev (if counted then count (idle_timeout_inc (sb_kind sb)) app else app)"
    and sb': "sb' = sb\<lparr>sb_idle := idle', sb_tee := tee'\<rparr>"
    by (rule poll_streamed_Inr [OF assms])
  have same: "ap_flights (drop_flight fl (if counted then count f app else app)) = ap_flights (drop_flight fl app)" for fl f
    by (simp add: drop_flight_def count_def split: option.split)
  show ?thesis
  proof (cases "te_copy (sb_tee sb)")
    case None
    then show ?thesis using tee_poll_copy_gone(1) [OF tee] by (simp add: app1 sb' settle_flights)
  next
    case (Some c)
    then show ?thesis
      using tee_poll_copy_gone(2) [OF tee Some] flight_move_drop [of app "finish_flight (sb_finish sb)"]
      by (cases ev) (auto simp: app1 sb' settle_flights same)
  qed
qed

lemma drop_streamed_move:
  "flight_move (ap_flights app) (guards_of (Streaming sb)) (ap_flights (drop_streamed M now sb app)) []"
  using flight_move_drop [of app "finish_flight (sb_finish sb)"]
  by (cases "te_copy (sb_tee sb)") (simp_all add: drop_streamed_def settle_flights tee_give_up_def)

lemma client_response_move:
  assumes "client_response L M now h idle store app = (r, app1)"
  shows "flight_move (ap_flights app) (held_flight (Option.bind store sg_flight)) (ap_flights app1)
    (guards (body_handlers (rs_body r)))"
proof -
  define len where "len = content_length L h"
  define kept where "kept = Option.bind store (\<lambda>sg. if len = None \<or> the len \<le> sg_limit sg then Some sg else None)"
  define app2 where "app2 = (if kept = None then drop_flight (Option.bind store sg_flight) app else app)"
  define fin where "fin = map_option (\<lambda>sg. (sg, hd_status h, stored_fields (forwardable_fields L h))) kept"
  obtain ev tee where te: "tee_new len (map_option (\<lambda>sg. \<lparr>bc_buffer = [], bc_limit = sg_limit sg\<rparr>) kept) = (ev, tee)"
    by fastforce
  define sb where "sb = \<lparr>sb_idle = idle, sb_kind = Foreground, sb_tee = tee, sb_finish = fin\<rparr>"
  have eq: "app1 = settle M now fin ev app2"
    "r = \<lparr>rs_status = hd_status h, rs_headers = miss_headers (forwardable_fields L h),
          rs_body = (case len of Some n \<Rightarrow> SizedBody n sb | None \<Rightarrow> StreamingBody sb)\<rparr>"
    using assms te
    unfolding client_response_def Let_def len_def kept_def app2_def fin_def sb_def by simp_all
  have gs: "guards (body_handlers (rs_body r)) = guards_of (Streaming sb)"
    by (simp add: eq(2) split: option.split)
  show ?thesis
  proof (cases kept)
    case None
    then have "ev = None" "te_copy tee = None"
      using te by (auto simp: tee_new_def tee_finish_def Let_def split: if_splits)
    then show ?thesis using None flight_move_drop [of app "Option.bind store sg_flight"]
      by (simp add: gs eq(1) settle_flights app2_def sb_def)
  next
    case (Some sg)
    have fl: "finish_flight fin = Option.bind store sg_flight" "app2 = app"
      using Some by (auto simp: finish_flight_def fin_def app2_def kept_def split: bind_splits if_splits)
    have "(ev = None) = (te_copy tee \<noteq> None)"
      using te Some by (auto simp: tee_new_def tee_finish_def Let_def split: if_splits)
    then show ?thesis
      using flight_move_drop [of app "Option.bind store sg_flight"] fl
      by (cases ev) (auto simp: gs eq(1) settle_flights sb_def)
  qed
qed

lemma refresh_in_background_flights:
  "ap_flights (snd (refresh_in_background L Y req key e app)) = ap_flights app"
  by (simp add: refresh_in_background_def Let_def split: option.split prod.split)

lemma from_cache_flights:
  assumes "from_cache L Y M now req key policy use app = Inr (c, task, app1)"
  shows "ap_flights app1 = ap_flights app" and "c = CachedAnswer r \<Longrightarrow> body_handlers (rs_body r) = []"
proof -
  have w: "while_revalidating L Y now req key policy e app = Inr (c, task, app1) \<Longrightarrow>
      ap_flights app1 = ap_flights app \<and> (\<forall>r. c = CachedAnswer r \<longrightarrow> body_handlers (rs_body r) = [])" for e
    using refresh_in_background_flights [of L Y req key e app]
    by (auto simp: while_revalidating_def cached_response_def split: if_splits sum.splits)
  have "ap_flights app1 = ap_flights app \<and> (\<forall>r. c = CachedAnswer r \<longrightarrow> body_handlers (rs_body r) = [])"
    using assms w
    by (auto simp: from_cache_def cached_response_def
        split: if_splits sum.splits option.splits lookup_result.splits)
  then show "ap_flights app1 = ap_flights app" "c = CachedAnswer r \<Longrightarrow> body_handlers (rs_body r) = []" by auto
qed

fun before_guards :: "before \<Rightarrow> flight list" where
  "before_guards (Origin to) = held_flight (to_flight to)"
| "before_guards _ = []"

lemma cached_or_move:
  assumes "cached_or c fl app = (b, app1)"
  shows "flight_move (ap_flights app) (held_flight fl) (ap_flights app1) (before_guards b)"
    and "b \<noteq> WaitFor ch deadline" and "b = Answer r \<Longrightarrow> c = CachedAnswer r"
  using assms by (cases c; auto)+

lemma proceed_move:
  assumes "proceed L req b app1 = (app2, hs, out)" and "\<And>r. b = Answer r \<Longrightarrow> body_handlers (rs_body r) = []"
  shows "ap_flights app2 = ap_flights app1" and "guards hs = before_guards b"
    and "Waiting q ch deadline \<in> set hs \<Longrightarrow> b = WaitFor ch deadline"
  using assms by (cases b; auto simp: respond_def)+

lemma serve_after_wait_move:
  assumes "serve_after_wait L Y M now req key policy app = Inr (b, task, app1)"
  shows "flight_move (ap_flights app) [] (ap_flights app1) (before_guards b)" and "b \<noteq> WaitFor ch deadline"
    and "b = Answer r \<Longrightarrow> body_handlers (rs_body r) = []"
proof -
  from assms obtain c app2 where c: "from_cache L Y M now req key policy Coalesced app = Inr (c, task, app2)"
    "cached_or c None app2 = (b, app1)"
    by (auto simp: serve_after_wait_def split: sum.splits prod.splits)
  show "flight_move (ap_flights app) [] (ap_flights app1) (before_guards b)" "b \<noteq> WaitFor ch deadline"
    using cached_or_move(1,2) [OF c(2)] from_cache_flights(1) [OF c(1)] by simp_all
  show "b = Answer r \<Longrightarrow> body_handlers (rs_body r) = []"
    using cached_or_move(3) [OF c(2)] from_cache_flights(2) [OF c(1)] by blast
qed

lemma join_flight_cases:
  assumes "join_flight M now req key policy app = (j, app1)"
  shows "j = Alone \<and> ap_flights app1 = ap_flights app \<or>
    (\<exists>k c. j = Follow c \<and> in_flight (ap_flights app) k = Some c \<and> ap_flights app1 = ap_flights app) \<or>
    (\<exists>k g. j = Lead g \<and> flights_join (ap_flights app) k True = (Lead g, ap_flights app1))"
proof (cases "may_coalesce policy \<and> flight_key_of M (ap_cache app) now key (rq_headers req) \<noteq> None")
  case True
  then obtain k f where k: "flights_join (ap_flights app) k (may_lead policy) = (j, f)" "app1 = app\<lparr>ap_flights := f\<rparr>"
    using assms by (auto simp: join_flight_def split: prod.splits)
  show ?thesis using k by (cases j) (auto simp: flights_join_cases)
next
  case False
  then show ?thesis using assms by (auto simp: join_flight_def split: if_splits)
qed

lemma serve_from_cache_move:
  assumes serve: "serve_from_cache L Y M now req key policy app = Inr (b, task, app1)"
  shows "flight_move (ap_flights app) [] (ap_flights app1) (before_guards b)"
    and "b = WaitFor ch deadline \<Longrightarrow> \<exists>k. in_flight (ap_flights app) k = Some ch \<and> ap_flights app1 = ap_flights app"
    and "b = Answer r \<Longrightarrow> body_handlers (rs_body r) = []"
proof -
  have first: "ap_flights app3 = ap_flights app"
    if "from_cache L Y M now req key policy Hit app = Inr (c, task', app2)" "cached_or c None app2 = (b', app3)"
    for c task' app2 b' app3
    using from_cache_flights(1) [OF that(1)] that(2) by (cases c) (auto simp: drop_flight_def)
  have "flight_move (ap_flights app) [] (ap_flights app1) (before_guards b) \<and>
    (\<forall>ch deadline. b = WaitFor ch deadline \<longrightarrow> (\<exists>k. in_flight (ap_flights app) k = Some ch \<and> ap_flights app1 = ap_flights app)) \<and>
    (\<forall>r. b = Answer r \<longrightarrow> body_handlers (rs_body r) = [])"
    using serve
  proof (cases rule: serve_from_cache_cases)
    case (answer c app2 r)
    then show ?thesis
      using first cached_or_move(3) [OF answer(2)] from_cache_flights(2) [OF answer(1)] by simp
  next
    case (alone c app2 to app3)
    have "to_flight to = None" using alone(2) by (cases c) auto
    then show ?thesis using alone first join_flight_cases [OF alone(3)] by simp
  next
    case (follow c app2 to app3 ch)
    then show ?thesis using first join_flight_cases [OF follow(3)] by auto
  next
    case (lead c task1 app2 to app3 g app4 c' app5)
    obtain k where k: "flights_join (ap_flights app) k True = (Lead g, ap_flights app4)"
      using join_flight_cases [OF lead(3)] first [OF lead(1,2)] by auto
    have "ap_flights app1 = drop_flight_guard (ap_flights app4) g \<and> before_guards b = [] \<or>
        ap_flights app1 = ap_flights app4 \<and> before_guards b = [g]"
      using lead(5) from_cache_flights(1) [OF lead(4)] by (cases c') (auto simp: drop_flight_def)
    then have "flight_move (ap_flights app) [] (ap_flights app1) (before_guards b)"
      using k unfolding flight_move_def by (elim disjE conjE) (simp_all, blast+)
    then show ?thesis
      using cached_or_move(2,3) [OF lead(5)] from_cache_flights(2) [OF lead(4)] by blast
  qed
  then show "flight_move (ap_flights app) [] (ap_flights app1) (before_guards b)"
    "b = WaitFor ch deadline \<Longrightarrow> \<exists>k. in_flight (ap_flights app) k = Some ch \<and> ap_flights app1 = ap_flights app"
    "b = Answer r \<Longrightarrow> body_handlers (rs_body r) = []" by blast+
qed

lemma cached_response_no_body: "cached_response stored now label = Inr r \<Longrightarrow> body_handlers (rs_body r) = []"
  by (auto dest: cached_response_Inr)

lemma store_plan_flights: "store_plan L wall req key policy h app = (store, app1) \<Longrightarrow>
   ap_flights app1 = ap_flights app \<and> (\<forall>sg. store = Some sg \<longrightarrow> sg_flight sg = None)"
  by (auto simp: store_plan_def Let_def split: option.splits if_splits)

lemma ap_flights_drop_cong:
  "ap_flights app' = ap_flights app \<Longrightarrow> ap_flights (drop_flight fl app') = ap_flights (drop_flight fl app)"
  by (simp add: drop_flight_def split: option.split)

lemma stale_answer_move:
  assumes "(case cached_response stored now label of Inl f \<Rightarrow> Inl f | Inr response \<Rightarrow> Inr (response, drop_flight fl app)) =
    Inr (r, app1)"
  shows "flight_move (ap_flights app) (held_flight fl) (ap_flights app1) (guards (body_handlers (rs_body r)))"
  using assms flight_move_drop [of app fl] by (auto dest: cached_response_no_body split: sum.splits)

lemma revalidated_move:
  assumes "revalidated L M wall now x e h app = Inr (r, app1)"
  shows "flight_move (ap_flights app) (held_flight (xc_flight x)) (ap_flights app1) (guards (body_handlers (rs_body r)))"
proof -
  obtain fresh s where r: "cached_response fresh now REVALIDATED = Inr r"
    and app1: "app1 = drop_flight (xc_flight x) (count revalidation (app\<lparr>ap_cache := s\<rparr>))"
    using assms by (auto simp: revalidated_def split: sum.splits prod.splits)
  have "ap_flights app1 = ap_flights (drop_flight (xc_flight x) app)"
    unfolding app1 by (rule ap_flights_drop_cong) simp
  then show ?thesis using cached_response_no_body [OF r] flight_move_drop [of app "xc_flight x"] by simp
qed

lemma answered_move:
  assumes ans: "answered L Y M wall now x ur app = Inr (r, app1)"
  shows "flight_move (ap_flights app) (held_flight (xc_flight x)) (ap_flights app1) (guards (body_handlers (rs_body r)))"
  using ans
proof (cases rule: answered_cases)
  case (stale_served e)
  then show ?thesis
    using cached_response_no_body [of "se_response e" now STALE r] flight_move_drop [of app "xc_flight x"]
    by (simp add: serve_stale_def)
next
  case (freshened e)
  then show ?thesis using revalidated_move by blast
next
  case (forwarded store app2)
  note c = forwarded(2) and f2 = store_plan_flights [OF forwarded(1), THEN conjunct1]
  show ?thesis
  proof (cases store)
    case None
    then have held: "held_flight (Option.bind (held_storing x store) sg_flight) = []"
      "ap_flights (forwarded_app x store app2) = ap_flights (drop_flight (xc_flight x) app)"
      using ap_flights_drop_cong [of "count (body_idle_timeouts Foreground) app2" app] f2
      by (simp_all add: held_storing_def forwarded_app_def)
    have "ap_flights app1 = ap_flights (forwarded_app x store app2) \<and> guards (body_handlers (rs_body r)) = []"
      using c None
      by (auto simp: held_storing_def client_response_def Let_def tee_new_def tee_finish_def settle_flights
          drop_flight_def split: if_splits option.splits)
    then show ?thesis using held flight_move_drop [of app "xc_flight x"] by simp
  next
    case (Some sg)
    then have "Option.bind (held_storing x store) sg_flight = xc_flight x"
      "ap_flights (forwarded_app x store app2) = ap_flights app"
      using f2 by (simp_all add: held_storing_def forwarded_app_def)
    then show ?thesis using client_response_move [OF c] by simp
  qed
qed

lemma failed_move:
  assumes "failed L now x status app = Inr (r, app1)"
  shows "flight_move (ap_flights app) (held_flight (xc_flight x)) (ap_flights app1) (guards (body_handlers (rs_body r)))"
  using assms flight_move_drop [of app "xc_flight x"] stale_answer_move [of "xc_flight x" app _ now STALE r app1]
  by (auto simp: failed_def error_response_def split: option.splits if_splits)

lemma arrive_move:
  assumes "arrive L Y M wall now x outcome app = Inr (r, app1)"
  shows "flight_move (ap_flights app) (held_flight (xc_flight x)) (ap_flights app1) (guards (body_handlers (rs_body r)))"
  using assms answered_move [of L Y M wall now x _ "send_to_origin Foreground outcome app" r app1]
    failed_move [of L now x _ "send_to_origin Foreground outcome app" r app1]
  by (cases outcome) (simp_all add: arrive_def)

lemma depart_move:
  assumes "depart L Y req key policy to payload ch app = (d, app1)"
  shows "d = Refused r \<Longrightarrow> flight_move (ap_flights app) (held_flight (to_flight to)) (ap_flights app1) [] \<and>
      body_handlers (rs_body r) = []"
    and "d = Sent x parts body \<Longrightarrow> ap_flights app1 = ap_flights app \<and> xc_flight x = to_flight to"
  using assms flight_move_drop [of app "to_flight to"]
  by (auto simp: depart_def Let_def error_response_def split: option.splits prod.splits sum.splits)

lemma background_arrive_flights:
  "background_arrive L Y M wall now t outcome app = (cl, app1) \<Longrightarrow> ap_flights app1 = ap_flights app \<and>
     (\<forall>c. cl = Some c \<longrightarrow> sg_flight (cl_storing c) = None)"
  by (cases outcome)
    (auto simp: background_arrive_def refresh_def Let_def split: if_splits option.splits prod.splits dest: store_plan_flights)

lemma poll_collecting_flights:
  assumes "poll_collecting Y sleep M now cl inner app = Inr (cl', app1)" and "sg_flight (cl_storing cl) = None"
  shows "ap_flights app1 = ap_flights app \<and> (\<forall>c. cl' = Some c \<longrightarrow> sg_flight (cl_storing c) = None)"
  using assms
  by (auto simp: poll_collecting_def Let_def ap_flights_finish drop_flight_def
      split: sum.splits prod.splits poll.splits option.splits if_splits)

section \<open>Refinement of the flight model\<close>

text \<open>A background revalidation holds no flight.\<close>

fun background_free :: "handler \<Rightarrow> bool" where
  "background_free (Collecting cl) \<longleftrightarrow> sg_flight (cl_storing cl) = None"
| "background_free _ \<longleftrightarrow> True"

lemma handler_step_move:
  assumes "handler_step L Y ttl app h app' hs out" and "background_free h"
  shows "flight_move (ap_flights app) (guards_of h) (ap_flights app') (guards hs)"
    and "list_all background_free hs"
    and "Waiting req c deadline \<in> set hs \<Longrightarrow> \<exists>k. in_flight (ap_flights app) k = Some c \<and> ap_flights app' = ap_flights app"
proof -
  have body: "list_all background_free (body_handlers b)" "Waiting q ch deadline \<notin> set (body_handlers b)" for b q ch deadline
    by (cases b; simp)+
  have spawn: "list_all background_free (spawned task)" "Waiting q ch deadline \<notin> set (spawned task)" for task q ch deadline
    by (simp_all add: spawned_def split: option.split)
  have proc: "proceed L q b app1 = (app2, hs2, out2) \<Longrightarrow> list_all background_free hs2" for q b app1 app2 hs2 out2
    by (cases b) (auto simp: respond_def body)
  have resp: "respond L q r app1 = (app2, hs2, out2) \<Longrightarrow> ap_flights app2 = ap_flights app1 \<and>
      hs2 = body_handlers (rs_body r)" for q r app1 app2 hs2 out2 by (auto simp: respond_def)
  from assms have "flight_move (ap_flights app) (guards_of h) (ap_flights app') (guards hs) \<and>
    list_all background_free hs \<and>
    (\<forall>q c deadline. Waiting q c deadline \<in> set hs \<longrightarrow> (\<exists>k. in_flight (ap_flights app) k = Some c \<and> ap_flights app' = ap_flights app))"
  proof (cases rule: handler_step.cases)
    case (serve M wall now req b task app1 hs0)
    note mv = serve_from_cache_move [OF serve(4)]
    note pr = proceed_move [OF serve(5) mv(3)]
    show ?thesis using serve mv(1,2) pr proc [OF serve(5)] spawn by auto
  next
    case (woken M wall now req b task app1 hs0 sleep c deadline)
    note mv = serve_after_wait_move [OF woken(4)]
    note pr = proceed_move [OF woken(5) mv(3)]
    have none: "Waiting q ch d \<notin> set hs0" for q ch d using pr mv(2) by blast
    show ?thesis using woken(2) mv(1) pr(1,2) none proc [OF woken(5)] spawn guards_of.simps by (auto simp: woken(1))
  next
    case (refuse req to payload ch r app1)
    then show ?thesis using depart_move(1) [OF refuse(2)] resp [OF refuse(3)] by auto
  next
    case (send req to payload ch x parts body)
    then show ?thesis using depart_move(2) [OF send(4)] by auto
  next
    case (arrived M wall now x outcome r app1)
    then show ?thesis using arrive_move [OF arrived(3)] resp [OF arrived(4)] body by auto
  next
    case (poll M wall sleep now sb inner item sb')
    then show ?thesis using poll_streamed_move [OF poll(5)] by simp
  next
    case (end_body M wall sb now)
    then show ?thesis using drop_streamed_move by simp
  next
    case (background M wall now t outcome cl)
    then show ?thesis using background_arrive_flights [OF background(5)] by (auto split: option.split)
  next
    case (collect M wall sleep now cl inner cl')
    then show ?thesis using poll_collecting_flights [OF collect(5)] assms(2) by (auto split: option.split)
  qed (auto simp: flight_move_drop)
  then show "flight_move (ap_flights app) (guards_of h) (ap_flights app') (guards hs)"
    "list_all background_free hs"
    "Waiting req c deadline \<in> set hs \<Longrightarrow> \<exists>k. in_flight (ap_flights app) k = Some c \<and> ap_flights app' = ap_flights app"
    by blast+
qed

definition flight_view :: "flight_key flights \<Rightarrow> flight list \<Rightarrow> (flight_key \<times> channel) set \<Rightarrow> flight_key flight_world" where
  "flight_view f G W =
     \<lparr>fw_flights = f, fw_guards = (\<lambda>g. (g, flight_guard_drop g)) ` set G, fw_waiters = W\<rparr>"

lemma flight_view_drop:
  assumes "flight_reach (flight_view f G W)" and "g \<in> set G"
  shows "flight_reach (flight_view (drop_flight_guard f g) (removeAll g G) W)"
proof -
  let ?w = "flight_view f G W"
  define mid where "mid = ?w\<lparr>fw_flights := run_drop (RemoveKey (fg_key g)) f,
    fw_guards := (fw_guards ?w - {(g, flight_guard_drop g)}) \<union> {(g, [CloseSender (fg_sender g)])}\<rparr>"
  have "(g, RemoveKey (fg_key g) # [CloseSender (fg_sender g)]) \<in> fw_guards ?w"
    using assms(2) by (auto simp: flight_view_def flight_guard_drop_def)
  from step_drop [OF this] have "flight_step ?w mid"
    by (simp add: mid_def flight_guard_drop_def) (simp add: flight_view_def)
  then have mid: "flight_reach mid" by (rule reach_step [OF assms(1)])
  have "(g, CloseSender (fg_sender g) # []) \<in> fw_guards mid" by (simp add: mid_def)
  from step_drop [OF this]
  have "flight_step mid (mid\<lparr>fw_flights := run_drop (CloseSender (fg_sender g)) (fw_flights mid),
      fw_guards := fw_guards mid - {(g, [CloseSender (fg_sender g)])}\<rparr>)" by simp
  moreover have "mid\<lparr>fw_flights := run_drop (CloseSender (fg_sender g)) (fw_flights mid),
      fw_guards := fw_guards mid - {(g, [CloseSender (fg_sender g)])}\<rparr> =
      flight_view (drop_flight_guard f g) (removeAll g G) W"
    by (auto simp: mid_def flight_view_def drop_flight_guard_def flight_guard_drop_def)
  ultimately show ?thesis using reach_step [OF mid] by simp
qed

lemma flight_view_lead:
  assumes "flight_reach (flight_view f G W)" and "flights_join f key True = (Lead g, f')"
  shows "flight_reach (flight_view f' (g # G) W)" and "g \<notin> set G"
proof -
  have "flight_step (flight_view f G W) (flight_view f' (g # G) W)"
    using step_lead [of "flight_view f G W" key True g f'] assms(2) by (simp add: flight_view_def)
  then show "flight_reach (flight_view f' (g # G) W)" by (rule reach_step [OF assms(1)])
  have "fg_sender g = fl_channels f" using assms(2) by (auto simp: flights_join_Lead)
  moreover have "h \<in> set G \<Longrightarrow> fg_sender h < fl_channels f" for h
    using flight_inv_parts(2) [OF flight_reach_inv [OF assms(1)], of h "flight_guard_drop h"]
    by (simp add: flight_view_def image_iff)
  ultimately show "g \<notin> set G" by force
qed

lemma flight_view_set: "set G = set G' \<Longrightarrow> flight_view f G W = flight_view f G' W"
  by (simp add: flight_view_def)

lemma flight_view_move:
  assumes reach: "flight_reach (flight_view f (A @ G @ B) W)" and dist: "distinct (A @ G @ B)"
    and move: "flight_move f G f' G'"
  shows "flight_reach (flight_view f' (A @ G' @ B) W) \<and> distinct (A @ G' @ B)"
  using move unfolding flight_move_def
proof (elim disjE exE conjE)
  assume "f' = f" "G' = G"
  then show ?thesis using reach dist by simp
next
  fix g
  assume g: "G = [g]" "G' = []" "f' = drop_flight_guard f g"
  have "removeAll g (A @ G @ B) = A @ B" using dist g by (auto simp: removeAll_id)
  then show ?thesis using flight_view_drop [OF reach, of g] g dist by auto
next
  fix key g
  assume g: "G = []" "flights_join f key True = (Lead g, f')" "G' = [g]"
  note lead = flight_view_lead [OF reach [unfolded g(1)] g(2)]
  have "flight_reach (flight_view f' (A @ G' @ B) W)"
    using lead(1) flight_view_set [of "A @ G' @ B" "g # A @ [] @ B" f' W] g(3) by simp
  then show ?thesis using lead(2) dist g by auto
next
  fix key g f1
  assume g: "G = []" "flights_join f key True = (Lead g, f1)" "G' = []" "f' = drop_flight_guard f1 g"
  note lead = flight_view_lead [OF reach [unfolded g(1)] g(2)]
  have "removeAll g (g # A @ [] @ B) = A @ B" using lead(2) by (simp add: removeAll_id)
  then show ?thesis using flight_view_drop [OF lead(1), of g] g dist by simp
qed

definition flights_refined :: "world \<Rightarrow> bool" where
  "flights_refined w \<longleftrightarrow>
     distinct (guards (w_handlers w)) \<and> list_all background_free (w_handlers w) \<and>
     (\<exists>W. flight_reach (flight_view (ap_flights (w_app w)) (guards (w_handlers w)) W) \<and>
        (\<forall>req c deadline. Waiting req c deadline \<in> set (w_handlers w) \<longrightarrow> (\<exists>k. (k, c) \<in> W)))"

lemma flight_view_follow:
  assumes "flight_reach (flight_view f G W)" and "in_flight f k = Some c"
  shows "flight_reach (flight_view f G (insert (k, c) W))"
proof (rule reach_step [OF assms(1)])
  show "flight_step (flight_view f G W) (flight_view f G (insert (k, c) W))"
    using step_follow [of "flight_view f G W" k True c f] assms(2)
    by (simp add: flights_join_Follow flight_view_def)
qed

text \<open>A step hands out at most one handler to wait, so one step of the model per waiting handler
  is enough: the channels of all the waiting handlers of a step are added one by one.\<close>

lemma flight_view_follow_all:
  assumes "flight_reach (flight_view f G W)" and "\<And>c. c \<in> set cs \<Longrightarrow> \<exists>k. in_flight f k = Some c"
  shows "\<exists>W'. W \<subseteq> W' \<and> flight_reach (flight_view f G W') \<and> (\<forall>c \<in> set cs. \<exists>k. (k, c) \<in> W')"
  using assms(2)
proof (induction cs)
  case Nil
  then show ?case using assms(1) by auto
next
  case (Cons c cs)
  then obtain W' where W': "W \<subseteq> W'" "flight_reach (flight_view f G W')" "\<forall>c \<in> set cs. \<exists>k. (k, c) \<in> W'" by auto
  obtain k where "in_flight f k = Some c" using Cons.prems by auto
  from flight_view_follow [OF W'(2) this] W'(1,3) show ?case
    by (intro exI [of _ "insert (k, c) W'"]) auto
qed

fun waits_on :: "handler \<Rightarrow> channel list" where
  "waits_on (Waiting req c deadline) = [c]"
| "waits_on _ = []"

lemma waits_on_iff: "c \<in> set (concat (map waits_on hs)) \<longleftrightarrow> (\<exists>req deadline. Waiting req c deadline \<in> set hs)"
proof -
  have "c \<in> set (waits_on h) \<longleftrightarrow> (\<exists>req deadline. h = Waiting req c deadline)" for h by (cases h) auto
  then show ?thesis by auto
qed

lemma flights_refined_step [invs]:
  assumes inv: "flights_refined w" and step: "world_step L Y ttl w w'"
  shows "flights_refined w'"
  using step
proof (cases rule: world_step.cases)
  case (handle hs1 h hs2 app' hs out)
  let ?f = "ap_flights (w_app w)"
  from inv obtain W where dist: "distinct (guards hs1 @ guards_of h @ guards hs2)"
    and free: "list_all background_free (hs1 @ h # hs2)"
    and reach: "flight_reach (flight_view ?f (guards hs1 @ guards_of h @ guards hs2) W)"
    and W: "\<And>req c deadline. Waiting req c deadline \<in> set (hs1 @ h # hs2) \<Longrightarrow> \<exists>k. (k, c) \<in> W"
    unfolding flights_refined_def handle(2) guards_simps by blast
  have fh: "background_free h" using free by simp
  note mv = handler_step_move [OF handle(3) fh]
  have ws: "\<exists>k. in_flight ?f k = Some c \<and> ap_flights app' = ?f" if "c \<in> set (concat (map waits_on hs))" for c
    using that mv(3) unfolding waits_on_iff by blast
  then obtain W' where W': "W \<subseteq> W'" "flight_reach (flight_view ?f (guards hs1 @ guards_of h @ guards hs2) W')"
    "\<forall>c \<in> set (concat (map waits_on hs)). \<exists>k. (k, c) \<in> W'"
    using flight_view_follow_all [OF reach, of "concat (map waits_on hs)"] by blast
  from flight_view_move [OF W'(2) dist mv(1)]
  have "flight_reach (flight_view (ap_flights app') (guards (hs1 @ hs @ hs2)) W')" "distinct (guards (hs1 @ hs @ hs2))"
    by simp_all
  moreover have "\<exists>k. (k, c) \<in> W'" if "Waiting req c deadline \<in> set (hs1 @ hs @ hs2)" for req c deadline
    using that W [of req c deadline] W'(1,3) waits_on_iff [of c hs] by auto
  ultimately show ?thesis
    using handle(1) free mv(2) unfolding flights_refined_def by (auto intro!: exI [of _ W'])
qed (use inv in \<open>auto simp: flights_refined_def\<close>)

lemma flights_refined_start: "initial_world mb ttl w \<Longrightarrow> flights_refined w"
  using reach_new [where ?'k = flight_key]
  by (auto simp: flights_refined_def initial_world_def flight_view_def flight_world_new_def intro!: exI [of _ "{}"])

lemma world_reach_flights: "world_reach L Y mb ttl w \<Longrightarrow> flights_refined w"
  by (induction rule: world_reach.induct) (auto intro: flights_refined_start flights_refined_step)

end
