(* ===== verification/Store_Props.thy ===== *)
theory Store_Props
  imports Store_Correct
begin

text \<open>
  The properties of the response store, over every run of its operations, with their instances
  on the worked example.
\<close>

section \<open>Lookups\<close>

lemma store_run_answer:
  assumes "store_run L mb ttl s H" and "moka_sound ttl M"
    and "lookup M s now primary request oldest = Inr (Some res)"
  shows "store_answer s primary (\<lambda>n. vary_values n request) (result_response res)"
  using assms store_run_params [OF assms(1)] unfolding store_answer_def by blast

lemma store_run_generation_inv:
  "store_run L mb ttl s H \<Longrightarrow> http_date_documented L \<Longrightarrow> generation_inv s"
  by (blast intro: store_run_inv store_inv_generation_inv)

text \<open>
  C2. Isolation of the shared cache: whatever the order of the operations on the store, a
  response that a lookup returns was stored from an exchange that was allowed to be stored, for
  the same scheme, host, path and query, by a request whose values for every header its \<open>Vary\<close>
  names are those of the request that asks.\<close>

theorem lookup_isolation:
  assumes "store_run L mb ttl s H" and "http_date_documented L" and "moka_sound ttl M"
    and "lookup M s now primary request oldest = Inr (Some res)"
  shows "\<exists>x. (x, result_response res) \<in> H \<and> ex_primary x = primary \<and>
    exchange_storable L x (sr_status (result_response res)) \<and>
    vary_values (vk_names (ex_vary x)) request = vary_values (vk_names (ex_vary x)) (ex_request x)"
  using lookup_recorded [OF store_run_inv [OF assms(1,2)] assms(3,4)] .

theorem lookup_isolation_witness:
  "\<exists>x. (x, example_stored) \<in> {(example_exchange, example_stored)} \<and> ex_primary x = example_key \<and>
    exchange_storable http_example x (sr_status example_stored) \<and>
    vary_values (vk_names (ex_vary x)) [] = vary_values (vk_names (ex_vary x)) (ex_request x)"
  using lookup_isolation [OF example_run http_example_documented(5) moka_example_sound example_lookup]
  by simp

text \<open>
  A lookup never panics: on every reachable store the age of a fresh response fits in a
  \<open>Duration\<close>, whatever \<open>Age\<close> and lifetime the origin declared.\<close>

theorem lookup_total:
  assumes "store_run L mb ttl s H" and "http_date_documented L" and "moka_sound ttl M"
  shows "\<exists>res. lookup M s now primary request oldest = Inr res"
  using lookup_no_fault [OF store_run_inv [OF assms(1,2)] assms(3)]
  by (cases "lookup M s now primary request oldest") auto

theorem lookup_total_witness:
  "\<exists>res. lookup (moka_example example_ttl) example_store 2000 example_key [] (Some 7) = Inr res"
  by (rule lookup_total [OF example_run http_example_documented(5) moka_example_sound])

text \<open>
  C20. What \<open>Fresh\<close> promises: the response is within its freshness lifetime, which the configured
  time to live bounds, its age is computable, and it is no older than the request accepts.\<close>

theorem lookup_fresh:
  assumes "store_run L mb ttl s H" and "http_date_documented L" and "moka_sound ttl M"
    and "lookup M s now primary request oldest = Inr (Some (Fresh r))"
  shows "elapsed (sr_stored_at r) now < sr_ttl r \<and> sr_ttl r \<le> ttl \<and>
    response_age r now = Inr (sr_initial_age r + elapsed (sr_stored_at r) now) \<and>
    (oldest = None \<or> sr_initial_age r + elapsed (sr_stored_at r) now \<le> the oldest)"
proof -
  note inv = store_run_inv [OF assms(1,2)]
  obtain t k where "stored_in s t k r"
    using lookup_stored [OF assms(3,4)] by (metis result_response.simps(1))
  from store_inv_stored(1) [OF inv this] have ok: "response_ok s t r" .
  have fresh: "is_fresh r now"
    "oldest = None \<or> sr_initial_age r + elapsed (sr_stored_at r) now \<le> the oldest"
    using assms(4) by (cases oldest; auto elim!: lookup_Inr)+
  then show ?thesis
    using ok elapsed_fresh_fits [OF ok fresh(1)] store_run_params [OF assms(1)]
    by (auto simp: is_fresh_def response_ok_def response_age_def add_dur_def)
qed

theorem lookup_fresh_witness:
  "elapsed (sr_stored_at example_stored) 2000 < sr_ttl example_stored \<and> sr_ttl example_stored \<le> example_ttl \<and>
    response_age example_stored 2000 =
      Inr (sr_initial_age example_stored + elapsed (sr_stored_at example_stored) 2000) \<and>
    (Some (from_secs 20) = None \<or>
      sr_initial_age example_stored + elapsed (sr_stored_at example_stored) 2000 \<le> the (Some (from_secs 20)))"
  by (rule lookup_fresh [OF example_run http_example_documented(5) moka_example_sound example_lookup])

text \<open>
  C21. Nothing is served that was stored longer ago than twice the configured time to live, and
  the index of a target URI is kept for at least as long as any response under it.\<close>

theorem lookup_lifetime:
  assumes "store_run L mb ttl s H" and "http_date_documented L" and "moka_sound ttl M"
    and "lookup M s now primary request oldest = Inr (Some res)"
  shows "now \<le> sr_stored_at (result_response res) + 2 * ttl \<and>
    entry_ttl (ResponseEntry (result_response res)) \<le> index_time_to_live ttl"
  using assms(3,4)
proof (cases rule: lookup_stored)
  case (1 ix t)
  have "response_ok s t (result_response res)"
    using store_inv_stored(1) [OF store_run_inv [OF assms(1,2)] 1(2)] .
  then show ?thesis
    using 1(3) entry_ttl_response_le store_run_params [OF assms(1)]
    by (fastforce simp: response_ok_def)
qed

theorem lookup_lifetime_witness:
  "2000 \<le> sr_stored_at (result_response (Fresh example_stored)) + 2 * example_ttl \<and>
    entry_ttl (ResponseEntry (result_response (Fresh example_stored))) \<le> index_time_to_live example_ttl"
  by (rule lookup_lifetime [OF example_run http_example_documented(5) moka_example_sound example_lookup])

section \<open>Storing, invalidating and revalidating\<close>

definition example_stale :: stale_entry where
  "example_stale = \<lparr>se_response = example_stored,
     se_key = \<lparr>rk_primary = example_key, rk_generation = 0, rk_vary = [None]\<rparr>\<rparr>"

text \<open>
  C14. Invalidation: after \<open>invalidate\<close>, no lookup for the target URI returns anything, whatever
  other operations run (responses for other targets, assets, removals, refreshes), until a
  response for this target URI is stored again.\<close>

theorem invalidate_hides_target:
  assumes "store_run L mb ttl s H" and "http_date_documented L"
    and "vc.run (invalidate s primary) ops s'" and "\<forall>n v r. Put primary n v r \<notin> set ops"
    and "moka_sound (st_ttl s') M"
  shows "\<not> (\<exists>res. lookup M s' now primary request oldest = Inr (Some res))"
proof -
  have "generation_inv s" using assms(1,2) by (rule store_run_generation_inv)
  then have "\<not> store_answer s' primary sel r" for sel r
    using vc.no_answer_after_drop [OF _ _ assms(3,4)] by simp
  then show ?thesis using assms(5) unfolding store_answer_def by blast
qed

theorem invalidate_hides_target_witness:
  "\<not> (\<exists>res. lookup (moka_example example_ttl)
      (snd (insert_asset (invalidate example_store example_key) 0 ''/'' ''x'' ''y'' 0)) 2000 example_key [] None =
      Inr (Some res))"
proof -
  have step: "vc.run (invalidate example_store example_key) ([] @ [Shrink])
      (snd (insert_asset (invalidate example_store example_key) 0 ''/'' ''x'' ''y'' 0))"
    by (rule vc.run_snoc [OF vc.run_Nil]) (unfold store_cache_step.simps, blast)
  have ttl: "st_ttl (snd (insert_asset (invalidate example_store example_key) 0 ''/'' ''x'' ''y'' 0)) = example_ttl"
    by code_simp
  show ?thesis
    by (rule invalidate_hides_target [OF example_run http_example_documented(5) step])
      (simp_all only: ttl moka_example_sound, simp)
qed



text \<open>
  A cache configured with no space or no time to live never answers.\<close>

theorem disabled_never_answers:
  assumes "store_run L mb ttl s H" and "mb = 0 \<or> ttl = 0" and "moka_sound ttl M"
  shows "lookup M s now primary request oldest = Inr None"
proof -
  have "index_get M (st_index s) now primary = None"
    using disabled_stores_nothing [OF assms(1,2)] index_get_in [OF assms(3)]
    by (cases "index_get M (st_index s) now primary") fastforce+
  then show ?thesis by (simp add: lookup_def)
qed

theorem disabled_never_answers_witness:
  "lookup (moka_example 0) (store_new 64 0) 5 example_key [] None = Inr None"
  by (rule disabled_never_answers [OF run_new _ moka_example_sound]) simp

text \<open>
  C26. Revalidation: the response that \<open>freshen\<close> returns has the stored status and body, is
  stored as of now, and for every field name has the values of the 304 when the 304 carries
  the field and the stored values otherwise.\<close>

theorem freshen_content:
  "sr_status (fst (freshen L M s wall now e policy request update age)) = sr_status (se_response e) \<and>
   sr_body (fst (freshen L M s wall now e policy request update age)) = sr_body (se_response e) \<and>
   sr_stored_at (fst (freshen L M s wall now e policy request update age)) = now \<and>
   get_all (sr_headers (fst (freshen L M s wall now e policy request update age))) n =
     (if contains_key update n then get_all update n else get_all (sr_headers (se_response e)) n)"
  using freshen_result [OF surjective_pairing] by (simp add: get_all_updated_fields)

text \<open>
  C27. A revalidation that comes back late does not undo a newer store: when the entry that was
  revalidated is no longer the one stored under its key, \<open>freshen\<close> leaves both caches as they
  are; and when it is still stored and the updated response may not be stored, the entry is
  gone for every later lookup.\<close>

theorem freshen_late_or_unstorable:
  "(\<not> is_current M s now e \<longrightarrow>
      st_entries (snd (freshen L M s wall now e policy request update age)) = st_entries s \<and>
      st_index (snd (freshen L M s wall now e policy request update age)) = st_index s) \<and>
   (is_current M s now e \<and>
      storable L wall policy request (sr_status (se_response e)) (freshen_map e update age) = None \<longrightarrow>
      variants (snd (freshen L M s wall now e policy request update age)) (rk_primary (se_key e))
        (rk_generation (se_key e)) (rk_vary (se_key e)) = None)"
  by (auto simp: freshen_def Let_def unstored_response_def variants_def
      split: option.splits if_splits prod.splits)

theorem freshen_late_or_unstorable_witness:
  "st_entries (snd (freshen http_example (moka_example example_ttl) (invalidate example_store example_key) 0 4000
      (example_stale\<lparr>se_key := \<lparr>rk_primary = example_key, rk_generation = 3, rk_vary = []\<rparr>\<rparr>)
      (request_policy_new http_example ''GET'' []) [] [] None)) = st_entries example_store \<and>
   variants (snd (freshen http_example (moka_example example_ttl) example_store 0 4000 example_stale
      (request_policy_new http_example ''GET'' []) [] [(''cache-control'', ''no-store'')] None))
      example_key 0 [None] = None"
proof -
  let ?M = "moka_example example_ttl" and ?p = "request_policy_new http_example ''GET'' []"
  let ?e = "example_stale\<lparr>se_key := \<lparr>rk_primary = example_key, rk_generation = 3, rk_vary = []\<rparr>\<rparr>"
  have late: "\<not> is_current ?M (invalidate example_store example_key) 4000 ?e" by code_simp
  have current: "is_current ?M example_store 4000 example_stale" by code_simp
  have unstorable: "storable http_example 0 ?p [] (sr_status (se_response example_stale))
      (freshen_map example_stale [(''cache-control'', ''no-store'')] None) = None" by code_simp
  show ?thesis
    using freshen_late_or_unstorable [of ?M "invalidate example_store example_key" 4000 ?e http_example 0 ?p
        "[]" "[]" None]
      freshen_late_or_unstorable [of ?M example_store 4000 example_stale http_example 0 ?p
        "[]" "[(''cache-control'', ''no-store'')]" None] late current unstorable
    by (simp add: example_stale_def invalidate_def)
qed

text \<open>
  \<open>is_current\<close> compares the allocations of the responses, and that is enough: for an entry
  that was stored, it holds exactly when the cache still has that very response under its key.\<close>

theorem is_current_exact:
  assumes "store_run L mb ttl s H" and "http_date_documented L" and "moka_sound ttl M"
    and "stored_in s t (se_key e) (se_response e)"
  shows "is_current M s now e \<longleftrightarrow>
    entries_get M (st_entries s) now (ResponseKey (se_key e)) = Some (ResponseEntry (se_response e))"
proof
  assume "is_current M s now e"
  then obtain r where r: "entries_get M (st_entries s) now (ResponseKey (se_key e)) = Some (ResponseEntry r)"
    and arc: "sr_arc r = sr_arc (se_response e)"
    by (auto simp: is_current_def split: option.splits entry.splits)
  obtain t' where "stored_in s t' (se_key e) r"
    using entries_get_in [OF assms(3) r] by (auto simp: stored_in_def)
  then have "r = se_response e"
    using store_run_inv [OF assms(1,2)] assms(4) arc unfolding store_inv_def by blast
  then show "entries_get M (st_entries s) now (ResponseKey (se_key e)) = Some (ResponseEntry (se_response e))"
    using r by simp
qed (simp add: is_current_def)

theorem is_current_exact_witness:
  "is_current (moka_example example_ttl) example_store 3000 example_stale \<longleftrightarrow>
    entries_get (moka_example example_ttl) (st_entries example_store) 3000 (ResponseKey (se_key example_stale)) =
      Some (ResponseEntry (se_response example_stale))"
proof (rule is_current_exact [OF example_run http_example_documented(5) moka_example_sound])
  show "stored_in example_store 1000 (se_key example_stale) (se_response example_stale)"
    unfolding stored_in_def by code_simp
qed

text \<open>
  At most one background revalidation per stored variant: whatever the interleaving of
  \<open>start_refresh\<close> calls and dropped guards, the guards in use are distinct, and a new guard is
  handed out for a variant exactly when none is in use for it.\<close>

theorem refresh_guard_exclusive:
  "distinct (snd (fold refresh.act acts (store_new mb ttl, []))) \<and>
   (fst (start_refresh (fst (fold refresh.act acts (store_new mb ttl, []))) e) \<noteq> None \<longleftrightarrow>
      se_key e \<notin> set (snd (fold refresh.act acts (store_new mb ttl, []))))"
proof -
  have "st_refreshing (store_new mb ttl) = {}" by (simp add: store_new_def Let_def)
  from refresh.exclusive [OF this, of acts] show ?thesis
    by (auto simp: claim_refresh_def start_refresh_def split: if_splits)
qed

section \<open>The age of a stale response\<close>

text \<open>A response the origin declares almost as old as an age can be.\<close>

definition aged_response :: fields where
  "aged_response =
     [(''cache-control'', ''max-age=18446744073709551615, stale-while-revalidate=100''),
      (''age'', ''18446744073709551614''), (''etag'', ''v1'')]"

definition aged_exchange :: exchange where
  "aged_exchange =
     \<lparr>ex_primary = example_key, ex_policy = request_policy_new http_example ''GET'' [],
      ex_request = [], ex_response = aged_response, ex_wall = 0,
      ex_storable = \<lparr>so_ttl = from_secs 1, so_initial_age = from_secs 18446744073709551614,
        so_stale = \<lparr>while_revalidate = from_secs 100, if_error = 0, must_revalidate_rule = False\<rparr>\<rparr>,
      ex_vary = \<lparr>vk_names = [], vk_values = []\<rparr>\<rparr>"

definition aged_insert :: "stored_response option \<times> store" where
  "aged_insert =
     insert_response (moka_example example_ttl) (store_new 1 example_ttl) 1000 example_key
       (ex_vary aged_exchange) (ex_storable aged_exchange) 200 aged_response ''hello''"

lemma aged_run: "store_run http_example 1 example_ttl (snd aged_insert) {(aged_exchange, the (fst aged_insert))}"
proof -
  have "fst aged_insert \<noteq> None" by code_simp
  then have eq: "aged_insert = (Some (the (fst aged_insert)), snd aged_insert)"
    by (cases aged_insert) auto
  have "store_run http_example 1 example_ttl (snd aged_insert)
      (case Some (the (fst aged_insert)) of None \<Rightarrow> {} | Some r \<Rightarrow> insert (aged_exchange, r) {})"
  proof (rule run_insert [OF run_new moka_example_sound])
    show "generation_left (store_new 1 example_ttl)"
      by (simp add: generation_left_def store_new_def Let_def)
    show "system_time_range (ex_wall aged_exchange)"
      by (simp add: system_time_range_def aged_exchange_def)
    show "exchange_storable http_example aged_exchange 200"
      unfolding exchange_storable_def by code_simp
    show "insert_response (moka_example example_ttl) (store_new 1 example_ttl) 1000
        (ex_primary aged_exchange) (ex_vary aged_exchange) (ex_storable aged_exchange) 200
        aged_response ''hello'' = (Some (the (fst aged_insert)), snd aged_insert)"
      using eq by (simp add: aged_insert_def) (simp add: aged_exchange_def)
  qed
  then show ?thesis by simp
qed

text \<open>
  C38. The age of a stale response can overflow: there is a reachable store, after one storable
  exchange, on which a lookup returns a stale response that may be served while it is
  revalidated and whose age exceeds the largest \<open>Duration\<close>, so that \<open>StoredResponse::age\<close>
  panics.\<close>

theorem stale_age_overflows:
  "\<exists>s H e. store_run http_example 1 example_ttl s H \<and>
     lookup (moka_example example_ttl) s (1000 + from_secs 50) example_key [] None = Inr (Some (Stale e)) \<and>
     may_serve_while_revalidating (se_response e) (1000 + from_secs 50) \<and>
     response_age (se_response e) (1000 + from_secs 50) = Inl DurationOverflow"
proof (intro exI conjI)
  show "store_run http_example 1 example_ttl (snd aged_insert) {(aged_exchange, the (fst aged_insert))}"
    by (rule aged_run)
  let ?e = "\<lparr>se_response = the (fst aged_insert),
    se_key = \<lparr>rk_primary = example_key, rk_generation = 0, rk_vary = []\<rparr>\<rparr>"
  show "lookup (moka_example example_ttl) (snd aged_insert) (1000 + from_secs 50) example_key [] None =
      Inr (Some (Stale ?e))" by code_simp
  show "may_serve_while_revalidating (se_response ?e) (1000 + from_secs 50)" by code_simp
  show "response_age (se_response ?e) (1000 + from_secs 50) = Inl DurationOverflow" by code_simp
qed

end
