(* ===== verification/Proxy_Props.thy ===== *)
theory Proxy_Props
  imports Proxy_Flights Store_Props
begin

text \<open>
  The properties of the proxy as a whole, over every interleaving of its handlers, and of the
  decisions of a single handler, with a worked run of two requests.
\<close>

section \<open>A worked run\<close>

definition example_app :: app_state where
  "example_app =
     \<lparr>ap_metrics = projr (metrics_new prom_example), ap_metrics_here = True, ap_cache = store_new 1 example_ttl,
      ap_flights = flights_default, ap_origin = example_origin, ap_asset_path = [], ap_timeout = from_secs 30\<rparr>"

text \<open>The origin's answer to the first request has no body, so that it is stored when it arrives.\<close>

definition example_answer :: upstream_response where
  "example_answer =
     \<lparr>ur_status = 200, ur_headers = [(''cache-control'', ''max-age=60''), (''content-length'', ''0'')]\<rparr>"

abbreviation (input) example_policy :: request_policy where
  "example_policy \<equiv> policy_of http_example example_request"

abbreviation (input) request_key :: primary_key where
  "request_key \<equiv> cache_key_of http_example example_request"

definition first_serve :: "fault + (before \<times> background_task option \<times> app_state)" where
  "first_serve = serve_from_cache http_example hyper_example (moka_example example_ttl) 1000 example_request
     request_key example_policy example_app"

definition first_to :: to_origin where
  "first_to = (case projr first_serve of (Origin to, _, _) \<Rightarrow> to)"

definition app_one :: app_state where
  "app_one = snd (snd (projr first_serve))"

lemma Inr_eqI:
  "\<not> isl r \<Longrightarrow> fst (projr r) = a \<Longrightarrow> fst (snd (projr r)) = b \<Longrightarrow> r = Inr (a, b, snd (snd (projr r)))"
  by (cases r) auto

lemma Inr_pair_eqI: "\<not> isl r \<Longrightarrow> r = Inr (fst (projr r), snd (projr r))"
  by (cases r) auto

lemma first_serve_eq: "first_serve = Inr (Origin first_to, None, app_one)"
proof -
  have "\<not> isl first_serve" by code_simp
  moreover have "fst (projr first_serve) = Origin first_to" by code_simp
  moreover have "fst (snd (projr first_serve)) = None" by code_simp
  ultimately show ?thesis unfolding app_one_def by (rule Inr_eqI)
qed

definition first_departure :: "departure \<times> app_state" where
  "first_departure = depart http_example hyper_example example_request request_key example_policy first_to [] None app_one"

definition first_exchange :: origin_exchange where
  "first_exchange = (case fst first_departure of Sent x _ _ \<Rightarrow> x)"

definition first_parts :: request_parts where
  "first_parts = (case fst first_departure of Sent _ p _ \<Rightarrow> p)"

definition app_two :: app_state where
  "app_two = snd first_departure"

lemma first_departure_eq: "first_departure = (Sent first_exchange first_parts EmptyBody, app_two)"
proof -
  have "fst first_departure = Sent first_exchange first_parts EmptyBody" by code_simp
  then show ?thesis unfolding app_two_def by (metis prod.collapse)
qed

definition first_arrival :: "fault + (response \<times> app_state)" where
  "first_arrival = arrive http_example hyper_example (moka_example example_ttl) 0 2000 first_exchange
     (Responded example_answer 1000) app_two"

definition first_response :: response where
  "first_response = fst (projr first_arrival)"

definition app_three :: app_state where
  "app_three = observe_response example_policy first_response (snd (projr first_arrival))"

definition second_serve :: "fault + (before \<times> background_task option \<times> app_state)" where
  "second_serve = serve_from_cache http_example hyper_example (moka_example example_ttl) 3000 example_request
     request_key example_policy app_three"

definition hit_response :: response where
  "hit_response = (case projr second_serve of (Answer r, _, _) \<Rightarrow> r)"

lemma second_serve_eq: "second_serve = Inr (Answer hit_response, None, snd (snd (projr second_serve)))"
proof (rule Inr_eqI)
  show "\<not> isl second_serve" by code_simp
  show "fst (projr second_serve) = Answer hit_response" by code_simp
  show "fst (snd (projr second_serve)) = None" by code_simp
qed

lemma hit_body: "body_handlers (rs_body hit_response) = []"
  by code_simp

lemma first_arrival_eq: "first_arrival = Inr (first_response, snd (projr first_arrival))"
proof -
  have "\<not> isl first_arrival" by code_simp
  then show ?thesis unfolding first_response_def by (rule Inr_pair_eqI)
qed

lemma example_environment:
  "environment example_ttl (moka_example example_ttl) 0 example_app"
  "environment example_ttl (moka_example example_ttl) 0 app_two"
  "environment example_ttl (moka_example example_ttl) 0 app_three"
proof -
  have "st_generation (ap_cache example_app) \<noteq> - 1" "st_generation (ap_cache app_two) \<noteq> - 1"
    "st_generation (ap_cache app_three) \<noteq> - 1" by code_simp+
  then show "environment example_ttl (moka_example example_ttl) 0 example_app"
    "environment example_ttl (moka_example example_ttl) 0 app_two"
    "environment example_ttl (moka_example example_ttl) 0 app_three"
    by (simp_all add: environment_def moka_example_sound system_time_range_def generation_left_def)
qed

abbreviation (input) example_reach :: "world \<Rightarrow> bool" where
  "example_reach \<equiv> world_reach http_example hyper_example 1 example_ttl"

lemma handle_one:
  assumes "example_reach \<lparr>w_app = app, w_handlers = hs1 @ [h], w_served = out\<rparr>"
    and "handler_step http_example hyper_example example_ttl app h app' hs out'"
  shows "example_reach \<lparr>w_app = app', w_handlers = hs1 @ hs, w_served = out @ out'\<rparr>"
  using step [OF assms(1) handle [of _ hs1 h "[]"]] assms(2) by simp

lemma arrive_one:
  "example_reach \<lparr>w_app = app, w_handlers = hs, w_served = out\<rparr> \<Longrightarrow>
   example_reach \<lparr>w_app = app, w_handlers = hs @ [Arrived req], w_served = out\<rparr>"
  by (drule step [OF _ request [of _ _ _ _ req]]) simp

definition waiting_handlers :: "handler list" where
  "waiting_handlers = body_handlers (rs_body first_response)"

definition app_four :: app_state where
  "app_four = observe_response example_policy hit_response (snd (snd (projr second_serve)))"

definition hit_world :: world where
  "hit_world = \<lparr>w_app = app_four, w_handlers = waiting_handlers,
     w_served = [(example_request, first_response), (example_request, hit_response)]\<rparr>"

lemma at_origin_reach: "example_reach \<lparr>w_app = app_two, w_handlers = [AtOrigin first_exchange], w_served = []\<rparr>"
proof -
  have "example_reach \<lparr>w_app = example_app, w_handlers = [], w_served = []\<rparr>"
    by (rule start) (simp add: initial_world_def example_app_def)
  from arrive_one [OF this, of example_request]
  have r: "example_reach \<lparr>w_app = example_app, w_handlers = [] @ [Arrived example_request], w_served = []\<rparr>" by simp
  from handle_one [OF r serve [OF example_environment(1) first_serve_eq [unfolded first_serve_def]]]
  have r: "example_reach \<lparr>w_app = app_one, w_handlers = [] @ [Departing example_request first_to], w_served = []\<rparr>"
    by (simp add: spawned_def)
  from handle_one [OF r send [OF first_departure_eq [unfolded first_departure_def]]] show ?thesis by simp
qed

lemma stored_reach:
  "example_reach \<lparr>w_app = app_three, w_handlers = waiting_handlers, w_served = [(example_request, first_response)]\<rparr>"
proof -
  have x: "xc_req first_exchange = example_request" by code_simp
  from at_origin_reach
  have r: "example_reach \<lparr>w_app = app_two, w_handlers = [] @ [AtOrigin first_exchange], w_served = []\<rparr>" by simp
  from handle_one [OF r arrived [OF example_environment(2) first_arrival_eq [unfolded first_arrival_def]]]
  show ?thesis by (simp add: respond_def x app_three_def waiting_handlers_def first_arrival_def)
qed

lemma hit_world_reach: "example_reach hit_world"
proof -
  note r = arrive_one [OF stored_reach, of example_request]
  from handle_one [OF r serve [OF example_environment(3) second_serve_eq [unfolded second_serve_def]]]
  show ?thesis
    by (simp add: respond_def hit_world_def app_four_def second_serve_def spawned_def hit_body)
qed

section \<open>Properties of the running proxy\<close>



text \<open>
  C12. One leader per flight key: in every reachable state, no two suspended handlers hold guards
  for the same flight key, no handler holds two, and the table of flights in progress has
  exactly the keys that are held.\<close>

theorem one_leader_per_key:
  assumes "world_reach L Y mb ttl w"
  shows "distinct (map fg_key (guards (w_handlers w))) \<and>
    dom (in_flight (ap_flights (w_app w))) = fg_key ` set (guards (w_handlers w))"
proof -
  let ?G = "guards (w_handlers w)"
  obtain W where dist: "distinct ?G" and reach: "flight_reach (flight_view (ap_flights (w_app w)) ?G W)"
    using world_reach_flights [OF assms] unfolding flights_refined_def by blast
  have tab: "in_flight (ap_flights (w_app w)) k = Some c \<longleftrightarrow> \<lparr>fg_key = k, fg_sender = c\<rparr> \<in> set ?G" for k c
    using flight_inv_parts(5) [OF flight_reach_inv [OF reach], of k c]
    by (simp add: flight_view_def image_iff)
  have held: "in_flight (ap_flights (w_app w)) (fg_key g) = Some (fg_sender g)" if "g \<in> set ?G" for g
    using tab [of "fg_key g" "fg_sender g"] that by (cases g) simp
  have "inj_on fg_key (set ?G)"
  proof (rule inj_onI)
    fix g g'
    assume g: "g \<in> set ?G" "g' \<in> set ?G" "fg_key g = fg_key g'"
    have "fg_sender g = fg_sender g'" using held [OF g(1)] held [OF g(2)] g(3) by simp
    then show "g = g'" using g(3) by (intro flight_guard.equality) simp_all
  qed
  moreover have "dom (in_flight (ap_flights (w_app w))) = fg_key ` set ?G"
    using tab held by (auto simp: dom_def image_iff) (metis flight_guard.select_convs(1))
  ultimately show ?thesis using dist by (simp add: distinct_map)
qed

theorem one_leader_per_key_witness:
  "distinct (map fg_key (guards [AtOrigin first_exchange])) \<and>
    dom (in_flight (ap_flights app_two)) = fg_key ` set (guards [AtOrigin first_exchange])"
  using one_leader_per_key [OF at_origin_reach] by simp

text \<open>
  C5. No follower is left behind: as long as a request waits for a flight and its wait cannot
  return, some suspended handler holds the guard of that flight, so that the flight ends when
  that handler does, however it does. Errors, cancellations, responses that are not stored and
  responses too long to store release it too.\<close>

theorem follower_has_leader:
  assumes "world_reach L Y mb ttl w" and "Waiting req c deadline \<in> set (w_handlers w)"
    and "\<not> wait_returns (ap_flights (w_app w)) c"
  shows "\<exists>h g. h \<in> set (w_handlers w) \<and> g \<in> set (guards_of h) \<and> fg_sender g = c"
proof -
  obtain W k where reach: "flight_reach (flight_view (ap_flights (w_app w)) (guards (w_handlers w)) W)"
    and k: "(k, c) \<in> W"
    using world_reach_flights [OF assms(1)] assms(2) unfolding flights_refined_def by blast
  have "c \<in> fl_closed (ap_flights (w_app w)) \<or>
      (\<exists>acts. (\<lparr>fg_key = k, fg_sender = c\<rparr>, acts) \<in> (\<lambda>g. (g, flight_guard_drop g)) ` set (guards (w_handlers w)))"
    using flight_inv_parts(6) [OF flight_reach_inv [OF reach], of k c] k by (simp add: flight_view_def)
  then have "\<lparr>fg_key = k, fg_sender = c\<rparr> \<in> set (guards (w_handlers w))"
    using assms(3) by (auto simp: wait_returns_def)
  then obtain h where "h \<in> set (w_handlers w)" "\<lparr>fg_key = k, fg_sender = c\<rparr> \<in> set (guards_of h)"
    by (auto simp: guards_def)
  then show ?thesis by (metis flight_guard.select_convs(2))
qed

text \<open>A second request for the same page arrives while the first is at the origin.\<close>

definition follow_serve :: "fault + (before \<times> background_task option \<times> app_state)" where
  "follow_serve = serve_from_cache http_example hyper_example (moka_example example_ttl) 1500 example_request
     request_key example_policy app_two"

definition follow_deadline :: instant where
  "follow_deadline = 1500 + from_secs 30"

lemma follow_serve_eq: "follow_serve = Inr (WaitFor 0 follow_deadline, None, snd (snd (projr follow_serve)))"
proof (rule Inr_eqI)
  show "\<not> isl follow_serve" by code_simp
  show "fst (projr follow_serve) = WaitFor 0 follow_deadline" by code_simp
  show "fst (snd (projr follow_serve)) = None" by code_simp
qed

lemma following_reach:
  "example_reach \<lparr>w_app = snd (snd (projr follow_serve)),
     w_handlers = [AtOrigin first_exchange, Waiting example_request 0 follow_deadline], w_served = []\<rparr>"
proof -
  note r = arrive_one [OF at_origin_reach, of example_request]
  from handle_one [OF r serve [OF example_environment(2) follow_serve_eq [unfolded follow_serve_def]]]
  show ?thesis by (simp add: spawned_def follow_serve_def)
qed

theorem follower_has_leader_witness:
  "\<exists>h g. h \<in> {AtOrigin first_exchange, Waiting example_request 0 follow_deadline} \<and> g \<in> set (guards_of h) \<and> fg_sender g = 0"
proof -
  have "\<not> wait_returns (ap_flights (snd (snd (projr follow_serve)))) 0" unfolding wait_returns_def by code_simp
  then show ?thesis using follower_has_leader [OF following_reach, of example_request 0] by simp
qed

section \<open>Decisions of a handler\<close>

lemma cache_label_cached:
  assumes "cached_response stored now label = Inr r" and "List.member CACHE_LABELS label"
  shows "cache_label r = Some label"
proof -
  obtain age where "rs_headers r = cached_headers stored age label"
    using assms(1) by (auto simp: cached_response_def split: sum.splits)
  then have "get (rs_headers r) CACHE_STATUS = Some label" by (simp add: get_def cached_headers_def)
  then show ?thesis
    using assms(2) by (auto simp: cache_label_def CACHE_STATUS_def CACHE_LABELS_def label_defs)
qed

lemma lookup_Fresh_cases:
  assumes "lookup M s now key request oldest = Inr (Some (Fresh r))"
  shows "elapsed (sr_stored_at r) now < sr_ttl r"
    and "oldest = None \<or> sr_initial_age r + elapsed (sr_stored_at r) now \<le> the oldest"
  using assms by (cases oldest; auto elim!: lookup_Inr simp: is_fresh_def)+

lemma stale_within_iff:
  "stale_within r window now \<longleftrightarrow>
     \<not> must_revalidate r \<and> sr_ttl r \<le> elapsed (sr_stored_at r) now \<and>
     elapsed (sr_stored_at r) now < sr_ttl r + window"
  by (auto simp: stale_within_def staleness_def checked_sub_def must_revalidate_def)


definition hit_lookup :: "fault + (cached \<times> background_task option \<times> app_state)" where
  "hit_lookup = from_cache http_example hyper_example (moka_example example_ttl) 3000 example_request
     request_key example_policy Hit app_three"

lemma hit_lookup_eq: "hit_lookup = Inr (CachedAnswer hit_response, None, snd (snd (projr hit_lookup)))"
proof (rule Inr_eqI)
  show "\<not> isl hit_lookup" by code_simp
  show "fst (projr hit_lookup) = CachedAnswer hit_response" by code_simp
  show "fst (snd (projr hit_lookup)) = None" by code_simp
qed


text \<open>
  C18. When the origin fails, the client gets a stale response only if the request has no \<open>max-age\<close>
  and the response is within its stale-if-error window and need not be revalidated; otherwise
  it gets the error, which is a 504 when the stored response must be revalidated. The flight
  ends in every case.\<close>

theorem origin_failure_answer:
  assumes "failed L now x status app = Inr (r, app1)"
  shows "app1 = drop_flight (xc_flight x) app \<and>
    (r = error_response L (if xc_stale x \<noteq> None \<and> must_revalidate (se_response (the (xc_stale x))) then 504 else status) \<or>
     (\<exists>e. xc_stale x = Some e \<and> max_age (xc_policy x) = None \<and> \<not> must_revalidate (se_response e) \<and>
        sr_ttl (se_response e) \<le> elapsed (sr_stored_at (se_response e)) now \<and>
        elapsed (sr_stored_at (se_response e)) now < sr_ttl (se_response e) + if_error (sr_stale (se_response e)) \<and>
        rs_body r = FullBody (sr_body (se_response e)) \<and> cache_label r = Some STALE))"
proof (cases "xc_stale x")
  case None
  then show ?thesis using assms by (auto simp: failed_def)
next
  case (Some e)
  show ?thesis
  proof (cases "exchange_may_serve_on_error x e now")
    case True
    then have c: "cached_response (se_response e) now STALE = Inr r" and app1: "app1 = drop_flight (xc_flight x) app"
      using assms Some by (auto simp: failed_def split: sum.splits)
    have "cache_label r = Some STALE" by (rule cache_label_cached [OF c]) (simp add: CACHE_LABELS_def)
    then show ?thesis
      using True Some app1 cached_response_Inr [OF c]
      unfolding exchange_may_serve_on_error_def may_serve_on_error_def stale_within_iff may_serve_stale_def by blast
  next
    case False
    then show ?thesis using assms Some by (simp add: failed_def)
  qed
qed

text \<open>The origin fails while a response with a stale-if-error window is revalidated.\<close>

definition lenient_entry :: stale_entry where
  "lenient_entry = example_stale\<lparr>se_response := example_stored\<lparr>sr_stale :=
     \<lparr>while_revalidate = 0, if_error = from_secs 1000, must_revalidate_rule = False\<rparr>\<rparr>\<rparr>"

definition lenient_exchange :: origin_exchange where
  "lenient_exchange = first_exchange\<lparr>xc_stale := Some lenient_entry\<rparr>"

definition lenient_failure :: "fault + (response \<times> app_state)" where
  "lenient_failure = failed http_example (from_secs 100) lenient_exchange 502 app_two"

theorem origin_failure_answer_witness:
  "rs_body (fst (projr lenient_failure)) = FullBody ''hello'' \<and>
    cache_label (fst (projr lenient_failure)) = Some STALE"
proof -
  have "\<not> isl lenient_failure" by code_simp
  from Inr_pair_eqI [OF this]
  have eq: "failed http_example (from_secs 100) lenient_exchange 502 app_two =
      Inr (fst (projr lenient_failure), snd (projr lenient_failure))" by (simp add: lenient_failure_def)
  have "rs_status (fst (projr lenient_failure)) = 200" by code_simp
  then have "fst (projr lenient_failure) \<noteq> error_response http_example s" if "s = 502 \<or> s = 504" for s
    using that by (auto simp: error_response_def)
  moreover have "sr_body (se_response lenient_entry) = ''hello''" by code_simp
  ultimately show ?thesis
    using origin_failure_answer [OF eq] by (auto simp: lenient_exchange_def split: if_splits)
qed

end
