(* ===== verification/System.thy ===== *)
theory System
  imports App Proxy_Props
begin

text \<open>
  The whole program running: the handlers of the proxy, of \<open>/assets\<close>, of \<open>/health\<close> and of \<open>/metrics\<close>
  on one shared state, in any interleaving. \<open>sy_clock\<close> is the moment of the last file operation.
  The world of the proxy is a projection of the system, so that what holds of every reachable world
  holds of the program; and the answers of \<open>/assets\<close> are the current contents of files below the
  asset root.
\<close>

section \<open>Steps\<close>

record system =
  sy_world :: world
  sy_assets :: "asset_handler list"
  sy_clock :: instant
  sy_files :: "asset_answer list"

abbreviation sy_app :: "system \<Rightarrow> app_state" where
  "sy_app s \<equiv> w_app (sy_world s)"

abbreviation with_app :: "system \<Rightarrow> app_state \<Rightarrow> system" where
  "with_app s app \<equiv> s\<lparr>sy_world := (sy_world s)\<lparr>w_app := app\<rparr>\<rparr>"

inductive asset_step ::
  "http_lib \<Rightarrow> asset_lib \<Rightarrow> disk \<Rightarrow> duration \<Rightarrow> instant \<Rightarrow> app_state \<Rightarrow> asset_handler \<Rightarrow>
   instant \<Rightarrow> app_state \<Rightarrow> asset_handler list \<Rightarrow> asset_answer list \<Rightarrow> bool"
  for L A disk ttl clock app where
  locate: "clock \<le> t1 \<Longrightarrow> t1 \<le> t2 \<Longrightarrow>
    serve_located disk t1 t2 since filename req app = (app', hs, out) \<Longrightarrow>
    asset_step L A disk ttl clock app (AssetArrived since filename req) t2 app' hs out"
| stamp: "clock \<le> t \<Longrightarrow> moka_sound ttl M \<Longrightarrow>
    serve_stamped L A disk M t now since filename req p app = (app', hs, out) \<Longrightarrow>
    asset_step L A disk ttl clock app (AssetLocated since filename req p) t app' hs out"
| content: "clock \<le> t \<Longrightarrow>
    serve_read L A disk t now since filename req p modified app = Inr (app', hs, out) \<Longrightarrow>
    asset_step L A disk ttl clock app (AssetReading since filename req p modified) t app' hs out"
| cancel_asset: "asset_step L A disk ttl clock app h clock app [] []"

inductive system_step ::
  "http_lib \<Rightarrow> hyper_lib \<Rightarrow> asset_lib \<Rightarrow> prom_lib \<Rightarrow> disk \<Rightarrow> duration \<Rightarrow> system \<Rightarrow> system \<Rightarrow> bool"
  for L Y A P disk ttl where
  proxy_request: "system_step L Y A P disk ttl s
    (s\<lparr>sy_world := (sy_world s)\<lparr>w_handlers := w_handlers (sy_world s) @ [Arrived req]\<rparr>\<rparr>)"
| proxy_handle: "w_handlers (sy_world s) = hs1 @ h # hs2 \<Longrightarrow>
    handler_step L Y ttl (sy_app s) h app' hs out \<Longrightarrow>
    system_step L Y A P disk ttl s (s\<lparr>sy_world :=
      \<lparr>w_app = app', w_handlers = hs1 @ hs @ hs2, w_served = w_served (sy_world s) @ out\<rparr>\<rparr>)"
| asset_request: "system_step L Y A P disk ttl s
    (s\<lparr>sy_assets := sy_assets s @ [AssetArrived (sy_clock s) filename req]\<rparr>)"
| asset_handle: "sy_assets s = hs1 @ h # hs2 \<Longrightarrow>
    asset_step L A disk ttl (sy_clock s) (sy_app s) h clock' app' hs out \<Longrightarrow>
    system_step L Y A P disk ttl s ((with_app s app')\<lparr>sy_assets := hs1 @ hs @ hs2, sy_clock := clock',
      sy_files := sy_files s @ out\<rparr>)"
| health: "system_step L Y A P disk ttl s (with_app s (snd (health_check P M now (sy_app s))))"
| metrics: "system_step L Y A P disk ttl s (with_app s (snd (metrics_endpoint print M now (sy_app s))))"

definition initial_system :: "prom_lib \<Rightarrow> nat \<Rightarrow> duration \<Rightarrow> path \<Rightarrow> system \<Rightarrow> bool" where
  "initial_system P mb ttl root s \<longleftrightarrow>
     initial_world mb ttl (sy_world s) \<and> metrics_new P = Inr (ap_metrics (sy_app s)) \<and>
     ap_asset_path (sy_app s) = root \<and> sy_assets s = [] \<and> sy_files s = []"

inductive system_reach ::
  "http_lib \<Rightarrow> hyper_lib \<Rightarrow> asset_lib \<Rightarrow> prom_lib \<Rightarrow> disk \<Rightarrow> nat \<Rightarrow> duration \<Rightarrow> path \<Rightarrow> system \<Rightarrow> bool"
  for L Y A P disk mb ttl root where
  start: "initial_system P mb ttl root s \<Longrightarrow> system_reach L Y A P disk mb ttl root s"
| step: "system_reach L Y A P disk mb ttl root s \<Longrightarrow> system_step L Y A P disk ttl s s' \<Longrightarrow>
    system_reach L Y A P disk mb ttl root s'"

section \<open>The world of the proxy\<close>

text \<open>What the endpoints other than the proxy do to the shared state are steps of the proxy's environment.\<close>

lemma reach_app:
  assumes "world_reach L Y mb ttl w"
  shows reach_asset: "world_reach L Y mb ttl
      (w\<lparr>w_app := (w_app w)\<lparr>ap_cache := snd (insert_asset (ap_cache (w_app w)) now p content etag modified)\<rparr>\<rparr>)"
    and reach_count: "world_reach L Y mb ttl (w\<lparr>w_app := count f (w_app w)\<rparr>)"
    and reach_entry_count: "world_reach L Y mb ttl
      (w\<lparr>w_app := (w_app w)\<lparr>ap_cache := snd (entry_count M (ap_cache (w_app w)) now)\<rparr>\<rparr>)"
    and reach_weighted_size: "world_reach L Y mb ttl
      (w\<lparr>w_app := (w_app w)\<lparr>ap_cache := snd (weighted_size M (ap_cache (w_app w)) now)\<rparr>\<rparr>)"
  by (rule world_reach.step [OF assms world_step.store_asset] world_reach.step [OF assms world_step.count_other]
      world_reach.step [OF assms world_step.read_count] world_reach.step [OF assms world_step.read_size])+

lemma app_update_swap: "app\<lparr>ap_metrics := m, ap_cache := c\<rparr> = app\<lparr>ap_cache := c, ap_metrics := m\<rparr>"
  by (cases app) simp

lemma reach_counts_read:
  assumes "world_reach L Y mb ttl w"
  shows "world_reach L Y mb ttl (w\<lparr>w_app := (w_app w)\<lparr>ap_metrics := m,
      ap_cache := snd (weighted_size M (snd (entry_count M (ap_cache (w_app w)) now)) now)\<rparr>\<rparr>)"
    and "world_reach L Y mb ttl (w\<lparr>w_app := (w_app w)\<lparr>ap_metrics := m,
      ap_cache := snd (entry_count M (snd (weighted_size M (ap_cache (w_app w)) now)) now)\<rparr>\<rparr>)"
  using reach_count [OF reach_weighted_size [OF reach_entry_count [OF assms]], where f = "\<lambda>_. m"]
    reach_count [OF reach_entry_count [OF reach_weighted_size [OF assms]], where f = "\<lambda>_. m"]
  by (simp_all add: count_def app_update_swap)

lemma asset_step_reach:
  assumes "asset_step L A disk ttl clock (w_app w) h clock' app' hs out" and "world_reach L Y mb ttl w"
  shows "world_reach L Y mb ttl (w\<lparr>w_app := app'\<rparr>)"
proof -
  have reply: "world_reach L Y mb ttl (w'\<lparr>w_app := fst (asset_reply_at since until filename req r (w_app w'))\<rparr>)"
    if "world_reach L Y mb ttl w'" for w' since until filename req r
    using reach_count [OF that] by (simp add: asset_reply_at_def observe_asset_def Let_def)
  note stored = reply [OF reach_asset [OF assms(2)]]
  from assms(1) show ?thesis
  proof cases
    case (locate t1 since filename req)
    then show ?thesis
      using assms(2) reply [OF assms(2)] by (auto simp: serve_located_def split: option.splits) (metis fst_conv)
  next
    case (stamp M now since filename req p)
    then show ?thesis
      using assms(2) reply [OF assms(2)]
      by (auto simp: serve_stamped_def split: sum.splits loading.splits) (metis fst_conv)+
  next
    case (content now since filename req p modified)
    then show ?thesis
      using reply [OF assms(2)] stored
      by (auto simp: serve_read_def load_read_def split_beta split: sum.splits) (metis fst_conv)+
  qed (use assms(2) in simp)
qed

lemma system_step_reach:
  assumes "system_step L Y A P disk ttl s s'" and "world_reach L Y mb ttl (sy_world s)"
  shows "world_reach L Y mb ttl (sy_world s')"
  using assms(1)
proof cases
  case (proxy_request req)
  then show ?thesis using world_reach.step [OF assms(2) world_step.request] by simp
next
  case (proxy_handle hs1 h hs2 app' hs out)
  then show ?thesis using world_reach.step [OF assms(2) world_step.handle] by simp
next
  case (asset_handle hs1 h hs2 clock' app' hs out)
  then show ?thesis using asset_step_reach assms(2) by simp
next
  case (health M now)
  then show ?thesis
    using reach_counts_read(1) [OF assms(2)]
    by (simp add: health_check_def Let_def split_beta)
next
  case (metrics print M now)
  then show ?thesis
    using reach_counts_read(2) [OF assms(2)]
    by (simp add: metrics_endpoint_def encode_def Let_def split_beta)
qed (use assms(2) in simp)

lemma system_reach_world: "system_reach L Y A P disk mb ttl root s \<Longrightarrow> world_reach L Y mb ttl (sy_world s)"
proof (induction rule: system_reach.induct)
  case (start s)
  then show ?case by (auto simp: initial_system_def intro: world_reach.start)
next
  case (step s s')
  then show ?case using system_step_reach by blast
qed

end
