(* ===== verification/Proxy_Moves.thy ===== *)
theory Proxy_Moves
  imports Proxy_World
begin

text \<open>
  What a section of a handler does to the shared state, as a sequence of moves: it stores, freshens
  or invalidates responses, changes the flights, counts metrics that are not those of a response, and
  takes or gives up the guard of a background revalidation. The moves of the guards are recorded.
  A fact about the state that every move keeps is kept by every handler.
\<close>

section \<open>Moves\<close>

datatype guard_event = Take response_key | Drop response_key

definition uncounted :: "(metrics \<Rightarrow> metrics) \<Rightarrow> bool" where
  "uncounted f \<longleftrightarrow> (\<forall>m. m_requests (f m) = m_requests m \<and> m_responses (f m) = m_responses m)"

inductive app_moves :: "app_state \<Rightarrow> guard_event list \<Rightarrow> app_state \<Rightarrow> bool" for app where
  moves_refl: "app_moves app [] app"
| moves_insert: "app_moves app evs app1 \<Longrightarrow>
    app_moves app evs (app1\<lparr>ap_cache := snd (insert_response M (ap_cache app1) now key vary sp status headers body)\<rparr>)"
| moves_freshen: "app_moves app evs app1 \<Longrightarrow>
    app_moves app evs (app1\<lparr>ap_cache := snd (freshen L M (ap_cache app1) wall now e policy request update age)\<rparr>)"
| moves_invalidate: "app_moves app evs app1 \<Longrightarrow> app_moves app evs (app1\<lparr>ap_cache := invalidate (ap_cache app1) key\<rparr>)"
| moves_flights: "app_moves app evs app1 \<Longrightarrow> app_moves app evs (app1\<lparr>ap_flights := flights\<rparr>)"
| moves_count: "app_moves app evs app1 \<Longrightarrow> uncounted f \<Longrightarrow> app_moves app evs (count f app1)"
| moves_take: "app_moves app evs app1 \<Longrightarrow> start_refresh (ap_cache app1) e = (Some k, s) \<Longrightarrow>
    app_moves app (evs @ [Take k]) (app1\<lparr>ap_cache := s\<rparr>)"
| moves_drop: "app_moves app evs app1 \<Longrightarrow> app_moves app (evs @ [Drop k]) (drop_refresh k app1)"

lemma uncounted_metrics [simp]:
  "uncounted (origin_responded kind status took)" "uncounted (origin_failed kind failure)"
  "uncounted (body_idle_timeouts kind)" "uncounted (idle_timeout_inc kind)"
  "uncounted revalidation" "uncounted background_refresh"
  by (simp_all add: uncounted_def origin_responded_def origin_failed_def body_idle_timeouts_def
      idle_timeout_inc_def revalidation_def background_refresh_def Let_def)

lemma moves_trans: "app_moves app1 evs' app2 \<Longrightarrow> app_moves app evs app1 \<Longrightarrow> app_moves app (evs @ evs') app2"
proof (induction rule: app_moves.induct)
  case (moves_take evs' app2 e k s)
  then show ?case using app_moves.moves_take [of app "evs @ evs'"] by simp
next
  case (moves_drop evs' app2 k)
  then show ?case using app_moves.moves_drop [of app "evs @ evs'"] by simp
qed (auto intro: app_moves.intros)

lemma moves_quiet_trans: "app_moves app evs app1 \<Longrightarrow> app_moves app1 [] app2 \<Longrightarrow> app_moves app evs app2"
  using moves_trans by fastforce

lemma moves_drop_flight: "app_moves app evs app1 \<Longrightarrow> app_moves app evs (drop_flight fl app1)"
  by (auto simp: drop_flight_def intro: app_moves.intros split: option.split)

lemma moves_if: "app_moves app evs app1 \<Longrightarrow> app_moves app evs app2 \<Longrightarrow> app_moves app evs (if c then app1 else app2)"
  by simp

lemma moves_finish_storing:
  "app_moves app evs app1 \<Longrightarrow> app_moves app evs (finish_storing M now sg status headers body app1)"
  by (simp add: finish_storing_def moves_drop_flight moves_insert)

lemma moves_settle: "app_moves app evs app1 \<Longrightarrow> app_moves app evs (settle M now fin ev app1)"
  by (auto simp: settle_def intro: moves_finish_storing moves_drop_flight split: option.split copy_event.split)

lemma moves_send_to_origin: "app_moves app evs app1 \<Longrightarrow> app_moves app evs (send_to_origin kind outcome app1)"
  by (auto simp: send_to_origin_def intro: moves_count split: origin_outcome.split)

lemmas moves_intros = moves_refl moves_insert moves_freshen moves_invalidate moves_flights moves_count
  moves_drop_flight moves_if moves_finish_storing moves_settle moves_send_to_origin

section \<open>The sections\<close>

lemma store_plan_moves: "store_plan L wall req key policy h app = (sg, app') \<Longrightarrow> app_moves app [] app'"
  by (auto simp: store_plan_def Let_def intro: moves_intros split: option.splits if_splits)

lemma client_response_moves: "client_response L M now h idle store app = (r, app') \<Longrightarrow> app_moves app [] app'"
  by (auto simp: client_response_def Let_def intro!: moves_intros split: prod.splits)

lemma revalidated_moves: "revalidated L M wall now x e h app = Inr (r, app') \<Longrightarrow> app_moves app [] app'"
  by (auto simp: revalidated_def split_beta intro!: moves_intros split: sum.splits)

lemma answered_moves: "answered L Y M wall now x r app = Inr (response, app') \<Longrightarrow> app_moves app [] app'"
proof (erule answered_cases)
  fix store app2
  assume plan: "store_plan L wall (xc_req x) (xc_key x) (xc_policy x) (head_from_upstream Y r) app = (store, app2)"
    and c: "client_response L M now (head_from_upstream Y r) (origin_body (ap_timeout app) now)
      (held_storing x store) (forwarded_app x store app2) = (response, app')"
  have "app_moves app [] (forwarded_app x store app2)"
    using store_plan_moves [OF plan] by (auto simp: forwarded_app_def intro!: moves_intros)
  then show ?thesis using client_response_moves [OF c] by (rule moves_quiet_trans)
qed (auto intro: moves_intros revalidated_moves)

lemma failed_moves: "failed L now x status app = Inr (r, app') \<Longrightarrow> app_moves app [] app'"
  by (auto simp: failed_def intro: moves_intros split: option.splits if_splits sum.splits)

lemma arrive_moves: "arrive L Y M wall now x outcome app = Inr (r, app') \<Longrightarrow> app_moves app [] app'"
  by (auto simp: arrive_def Let_def split: origin_outcome.splits
      dest!: answered_moves failed_moves intro: moves_quiet_trans [OF moves_send_to_origin [OF moves_refl]])

lemma depart_moves: "depart L Y req key policy to payload ch app = (d, app') \<Longrightarrow> app_moves app [] app'"
  by (auto simp: depart_def Let_def intro!: moves_intros split: option.splits sum.splits)

lemma poll_streamed_moves:
  "poll_streamed sleep M now sb inner app = Inr (item, sb', app') \<Longrightarrow> app_moves app [] app'"
  by (auto simp: poll_streamed_def Let_def intro!: moves_intros split: sum.splits prod.splits)

lemma join_flight_moves: "join_flight M now req key policy app = (j, app') \<Longrightarrow> app_moves app [] app'"
  by (auto simp: join_flight_def intro: moves_intros split: if_splits option.splits prod.splits)

lemma cached_or_moves: "cached_or c fl app = (b, app') \<Longrightarrow> app_moves app [] app'"
  by (cases c) (auto intro: moves_intros)

text \<open>How a section moves the guards a handler holds: it leaves them, takes a free one, takes one and
  gives it up at once, or gives one up.\<close>

definition guard_events :: "response_key list \<Rightarrow> guard_event list \<Rightarrow> response_key list \<Rightarrow> bool" where
  "guard_events G evs G' \<longleftrightarrow>
     (evs = [] \<and> G' = G) \<or> (\<exists>k. evs = [Take k] \<and> G = [] \<and> G' = [k]) \<or>
     (\<exists>k. evs = [Take k, Drop k] \<and> G = [] \<and> G' = []) \<or> (\<exists>k. evs = [Drop k] \<and> G = [k] \<and> G' = [])"

lemma guard_events_simps [simp]:
  "guard_events G [] G" "guard_events [] [Take k] [k]" "guard_events [] [Take k, Drop k] []" "guard_events [k] [Drop k] []"
  by (simp_all add: guard_events_def)

fun refresh_guards_of :: "handler \<Rightarrow> response_key list" where
  "refresh_guards_of (Refreshing t) = [bt_guard t]"
| "refresh_guards_of (Collecting cl) = [cl_guard cl]"
| "refresh_guards_of _ = []"

definition refresh_guards :: "handler list \<Rightarrow> response_key list" where
  "refresh_guards hs = concat (map refresh_guards_of hs)"

lemma refresh_guards_simps [simp]:
  "refresh_guards [] = []" "refresh_guards (h # hs) = refresh_guards_of h @ refresh_guards hs"
  "refresh_guards (hs @ hs') = refresh_guards hs @ refresh_guards hs'"
  by (simp_all add: refresh_guards_def)

lemma refresh_guards_body [simp]: "refresh_guards (body_handlers b) = []"
  by (cases b) auto

lemma refresh_guards_spawned [simp]:
  "refresh_guards (spawned None) = []" "refresh_guards (spawned (Some t)) = [bt_guard t]"
  by (simp_all add: spawned_def)

definition moves_with ::
  "app_state \<Rightarrow> response_key list \<Rightarrow> app_state \<Rightarrow> response_key list \<Rightarrow> bool" where
  "moves_with app G app' G' \<longleftrightarrow> (\<exists>evs. app_moves app evs app' \<and> guard_events G evs G')"

lemma moves_with_quiet: "app_moves app [] app' \<Longrightarrow> moves_with app G app' G"
  unfolding moves_with_def using guard_events_simps(1) by blast

lemma moves_with_trans: "moves_with app G app1 G' \<Longrightarrow> app_moves app1 [] app2 \<Longrightarrow> moves_with app G app2 G'"
  unfolding moves_with_def using moves_quiet_trans by blast

lemma moves_with_drop: "app_moves app [] app1 \<Longrightarrow> moves_with app [k] (drop_refresh k app1) []"
  unfolding moves_with_def using moves_drop [of app "[]" app1 k] by fastforce

lemma refresh_in_background_moves:
  assumes "refresh_in_background L Y req key e app = (task, app')"
  shows "moves_with app [] app' (refresh_guards (spawned task))"
proof (cases "start_refresh (ap_cache app) e")
  case (Pair g s)
  show ?thesis
  proof (cases g)
    case None
    then have "s = ap_cache app" using Pair by (auto simp: start_refresh_def split: if_splits)
    then show ?thesis
      using assms Pair None by (auto simp: refresh_in_background_def intro!: moves_with_quiet moves_refl)
  next
    case (Some k)
    have take: "app_moves app [Take k] (app\<lparr>ap_cache := s\<rparr>)"
      using moves_take [OF moves_refl] Pair Some by fastforce
    have drop: "app_moves app [Take k, Drop k] (drop_refresh k (app\<lparr>ap_cache := s\<rparr>))"
      using moves_drop [OF take] by simp
    have count: "app_moves app [Take k] (count background_refresh (app\<lparr>ap_cache := s\<rparr>))"
      using moves_count [OF take] by simp
    show ?thesis
      using assms Pair Some take drop count guard_events_simps
      by (fastforce simp: refresh_in_background_def moves_with_def Let_def split: option.splits prod.splits)
  qed
qed

lemma from_cache_moves:
  assumes "from_cache L Y M now req key policy use app = Inr (c, task, app')"
  shows "moves_with app [] app' (refresh_guards (spawned task)) \<and>
    ((\<forall>r. c \<noteq> CachedAnswer r) \<longrightarrow> task = None \<and> app' = app)"
  using assms
proof (cases rule: from_cache_cases)
  case (stale_found e)
  then show ?thesis
    using refresh_in_background_moves
    by (auto simp: while_revalidating_def intro!: moves_with_quiet moves_refl split: if_splits sum.splits)
qed (auto intro!: moves_with_quiet moves_refl)

lemma cached_or_Origin: "cached_or c fl app = (Origin to, app') \<Longrightarrow> (\<forall>r. c \<noteq> CachedAnswer r) \<and> app' = app"
  by (cases c) auto

lemma serve_from_cache_moves:
  assumes "serve_from_cache L Y M now req key policy app = Inr (b, task, app')"
  shows "moves_with app [] app' (refresh_guards (spawned task))"
  using assms
proof (cases rule: serve_from_cache_cases)
  case (answer c app2 r)
  then show ?thesis using from_cache_moves [OF answer(1)] cached_or_moves [OF answer(2)] moves_with_trans by blast
next
  case (alone c app2 to app3)
  then show ?thesis
    using from_cache_moves [OF alone(1)] cached_or_Origin [OF alone(2)] join_flight_moves [OF alone(3)]
    by (auto intro: moves_with_quiet)
next
  case (follow c app2 to app3 ch)
  then show ?thesis
    using from_cache_moves [OF follow(1)] cached_or_Origin [OF follow(2)] join_flight_moves [OF follow(3)]
    by (auto intro: moves_with_quiet)
next
  case (lead c task1 app2 to app3 g app4 c' app5)
  have "app_moves app [] app4"
    using from_cache_moves [OF lead(1)] cached_or_Origin [OF lead(2)] join_flight_moves [OF lead(3)] by auto
  moreover have "moves_with app4 [] app' (refresh_guards (spawned task))"
    using from_cache_moves [OF lead(4)] cached_or_moves [OF lead(5)] moves_with_trans by blast
  ultimately show ?thesis unfolding moves_with_def using moves_trans by fastforce
qed

lemma serve_after_wait_moves:
  assumes "serve_after_wait L Y M now req key policy app = Inr (b, task, app')"
  shows "moves_with app [] app' (refresh_guards (spawned task))"
proof -
  obtain c app1 where c: "from_cache L Y M now req key policy Coalesced app = Inr (c, task, app1)"
    and b: "cached_or c None app1 = (b, app')"
    using assms by (auto simp: serve_after_wait_def split: sum.splits prod.splits)
  show ?thesis
    using from_cache_moves [OF c, THEN conjunct1] cached_or_moves [OF b] by (rule moves_with_trans)
qed

lemma refresh_moves:
  assumes "refresh L Y M wall now t r app = (cl, app')"
  shows "moves_with app [bt_guard t] app' (case cl of None \<Rightarrow> [] | Some c \<Rightarrow> [cl_guard c])"
proof (cases "hd_status (head_from_upstream Y r) = 304")
  case True
  then show ?thesis using assms by (auto simp: refresh_def Let_def intro!: moves_with_drop moves_intros)
next
  case False
  obtain sg app1 where plan: "store_plan L wall (bt_req t) (bt_key t)
      (request_policy_new L (rq_method (bt_req t)) (rq_headers (bt_req t))) (head_from_upstream Y r) app = (sg, app1)"
    by force
  have "app_moves app [] (count (body_idle_timeouts Background) app1)"
    using store_plan_moves [OF plan] by (rule moves_count) simp
  then show ?thesis
    using assms False plan store_plan_moves [OF plan]
    by (auto simp: refresh_def Let_def intro: moves_with_drop moves_with_quiet split: option.splits)
qed

lemma background_arrive_moves:
  assumes "background_arrive L Y M wall now t outcome app = (cl, app')"
  shows "moves_with app [bt_guard t] app' (case cl of None \<Rightarrow> [] | Some c \<Rightarrow> [cl_guard c])"
proof -
  have sent: "app_moves app [] (send_to_origin Background outcome app)" by (intro moves_intros)
  show ?thesis
  proof (cases outcome)
    case (Responded r took)
    then have "refresh L Y M wall now t r (send_to_origin Background outcome app) = (cl, app')"
      using assms by (simp add: background_arrive_def Let_def)
    from refresh_moves [OF this] show ?thesis
      unfolding moves_with_def using moves_trans [OF _ sent] by fastforce
  qed (use assms sent in \<open>auto simp: background_arrive_def Let_def intro: moves_with_drop\<close>)
qed

lemma poll_collecting_moves:
  assumes "poll_collecting Y sleep M now cl inner app = Inr (cl', app')"
  shows "moves_with app [cl_guard cl] app' (case cl' of None \<Rightarrow> [] | Some c \<Rightarrow> [cl_guard c])"
  using assms
  by (auto simp: poll_collecting_def Let_def intro!: moves_with_drop moves_with_quiet moves_intros
      split: sum.splits prod.splits poll.splits option.splits if_splits)

section \<open>The handlers\<close>

text \<open>A section makes its moves, and when it answers a request it counts the answer at the end.\<close>

definition answer_counted :: "http_lib \<Rightarrow> served \<Rightarrow> app_state \<Rightarrow> app_state" where
  "answer_counted L out app = fold (\<lambda>(req, r). observe_response (policy_of L req) r) out app"

lemma answer_counted_simps [simp]:
  "answer_counted L [] app = app"
  "answer_counted L [(req, r)] app = observe_response (policy_of L req) r app"
  by (simp_all add: answer_counted_def)

lemma respond_counted:
  "respond L req r app = (app', hs, out) \<Longrightarrow> app' = answer_counted L out app \<and> refresh_guards hs = []"
  by (auto simp: respond_def)

lemma proceed_counted:
  "proceed L req b app = (app', hs, out) \<Longrightarrow> app' = answer_counted L out app \<and> refresh_guards hs = []"
  by (cases b) (auto dest: respond_counted)

lemma handler_step_moves:
  assumes "handler_step L Y ttl app h app' hs out"
  shows "\<exists>app1. moves_with app (refresh_guards_of h) app1 (refresh_guards hs) \<and> app' = answer_counted L out app1"
  using assms
proof induction
  case (serve M wall app now req b task app1 app' hs out)
  then show ?case using serve_from_cache_moves proceed_counted by fastforce
next
  case (woken M wall app now req b task app1 app' hs out sleep c deadline)
  then show ?case using serve_after_wait_moves proceed_counted by fastforce
next
  case (refuse req to payload ch app r app1 app' hs out)
  then show ?case using depart_moves moves_with_quiet respond_counted by fastforce
next
  case (arrived M wall app now x outcome r app1 app' hs out)
  then show ?case using arrive_moves moves_with_quiet respond_counted by fastforce
next
  case (background M wall app now t outcome cl app')
  then show ?case using background_arrive_moves by (cases cl) fastforce+
next
  case (collect M wall app sleep now cl inner cl' app')
  then show ?case using poll_collecting_moves by (cases cl') fastforce+
qed (auto simp: drop_streamed_def intro!: moves_with_quiet moves_intros dest: depart_moves poll_streamed_moves)

end
