(* ===== verification/Asset_Inv.thy ===== *)
theory Asset_Inv
  imports System Proxy_Moves
begin

text \<open>
  The invariant of the assets in the running program: the proxy's handlers leave the stored assets
  alone, every stored asset is a genuine copy of its file, and every answer of \<open>/assets\<close> is current.
\<close>

section \<open>The proxy leaves the assets alone\<close>

text \<open>The assets that were ever stored, and the root they are read from.\<close>

definition asset_log :: "store \<Rightarrow> (path \<times> asset) set" where
  "asset_log s = {(p, a). \<exists>t. Inserted t (AssetKey p) (AssetEntry a) \<in> set (st_entries s)}"

definition asset_view :: "app_state \<Rightarrow> path \<times> (path \<times> asset) set" where
  "asset_view app = (ap_asset_path app, asset_log (ap_cache app))"

lemma asset_log_insert_response [simp]:
  "asset_log (snd (insert_response M s now primary vary policy status headers body)) = asset_log s"
  by (auto simp: insert_response_def asset_log_def Let_def split_beta)

lemma asset_log_unstored [simp]:
  "asset_log (snd (unstored_response s now policy status headers body)) = asset_log s"
  "asset_log (s\<lparr>st_entries := Invalidated k # st_entries s\<rparr>) = asset_log s"
  by (auto simp: unstored_response_def asset_log_def)

lemma asset_log_freshen [simp]:
  "asset_log (snd (freshen L M s wall now e policy request update age)) = asset_log s"
proof -
  have ins: "insert_response M s now primary vk sp status headers body = (r, s') \<Longrightarrow> asset_log s' = asset_log s"
    for primary vk sp status headers body r s'
    using asset_log_insert_response by (metis snd_conv)
  show ?thesis by (auto simp: freshen_def Let_def split: option.split prod.split dest: ins)
qed

lemma asset_log_other [simp]:
  "asset_log (invalidate s p) = asset_log s"
  "asset_log (snd (start_refresh s e)) = asset_log s"
  "asset_log (drop_refresh_guard s k) = asset_log s"
  "asset_log (snd (entry_count M s now)) = asset_log s"
  "asset_log (snd (weighted_size M s now)) = asset_log s"
  by (auto simp: asset_log_def invalidate_def start_refresh_def drop_refresh_guard_def entry_count_def
      weighted_size_def Let_def)

lemma app_moves_asset_view: "app_moves app evs app' \<Longrightarrow> asset_view app' = asset_view app"
proof (induction rule: app_moves.induct)
  case (moves_take evs app1 e k s)
  then show ?case using asset_log_other(2) [of "ap_cache app1" e] by (simp add: asset_view_def)
qed (simp_all add: asset_view_def count_def drop_refresh_def)

lemma answer_counted_asset_view [simp]: "asset_view (answer_counted L out app) = asset_view app"
  by (induction out arbitrary: app)
    (auto simp: answer_counted_def asset_view_def observe_response_def count_def Let_def)

lemma handler_step_asset_view:
  assumes "handler_step L Y ttl app h app' hs out"
  shows "asset_view app' = asset_view app"
  using handler_step_moves [OF assms] app_moves_asset_view unfolding moves_with_def by fastforce

lemma endpoint_asset_view [simp]:
  "asset_view (snd (health_check P M now app)) = asset_view app"
  "asset_view (snd (metrics_endpoint print M now app)) = asset_view app"
  by (simp_all add: health_check_def metrics_endpoint_def encode_def asset_view_def Let_def split_beta)

section \<open>The invariant of the assets\<close>

definition located_at :: "disk \<Rightarrow> instant \<Rightarrow> instant \<Rightarrow> path \<Rightarrow> string \<Rightarrow> path \<Rightarrow> bool" where
  "located_at disk since until root filename p \<longleftrightarrow>
     (\<exists>t1 t2. since \<le> t1 \<and> t1 \<le> t2 \<and> t2 \<le> until \<and>
        resolve_asset (disk t1) (disk t2) root filename = Some p)"

text \<open>A stored asset was read from its file after its modified time was taken.\<close>

definition genuine :: "asset_lib \<Rightarrow> disk \<Rightarrow> instant \<Rightarrow> path \<times> asset \<Rightarrow> bool" where
  "genuine A disk clock = (\<lambda>(p, a). \<exists>t1 t2 n. t1 \<le> t2 \<and> t2 \<le> clock \<and>
     file_stamp (disk t1) p = Some (as_modified a, n) \<and> read (disk t2) p = Inr (as_content a) \<and>
     as_len a = length (as_content a) \<and> asset_etag A (as_content a) = Inr (as_etag a))"

fun asset_handler_ok :: "disk \<Rightarrow> instant \<Rightarrow> path \<Rightarrow> asset_handler \<Rightarrow> bool" where
  "asset_handler_ok disk clock root (AssetArrived since filename req) \<longleftrightarrow> since \<le> clock"
| "asset_handler_ok disk clock root (AssetLocated since filename req p) \<longleftrightarrow>
     since \<le> clock \<and> located_at disk since clock root filename p"
| "asset_handler_ok disk clock root (AssetReading since filename req p modified) \<longleftrightarrow>
     since \<le> clock \<and> located_at disk since clock root filename p \<and>
     (\<exists>t n. t \<le> clock \<and> file_stamp (disk t) p = Some (modified, n))"

definition found_current :: "asset_lib \<Rightarrow> disk \<Rightarrow> instant \<Rightarrow> instant \<Rightarrow> path \<Rightarrow> asset \<Rightarrow> bool" where
  "found_current A disk since until p a \<longleftrightarrow>
     (\<exists>t. since \<le> t \<and> t \<le> until \<and> file_stamp (disk t) p \<noteq> None \<and> as_content a = contents (disk t) p \<and>
        asset_etag A (as_content a) = Inr (as_etag a))"

definition asset_answer_ok :: "http_lib \<Rightarrow> asset_lib \<Rightarrow> disk \<Rightarrow> path \<Rightarrow> asset_answer \<Rightarrow> bool" where
  "asset_answer_ok L A disk root ans \<longleftrightarrow>
     aa_response ans = asset_not_found \<or>
     (\<exists>p a status. located_at disk (aa_since ans) (aa_until ans) root (aa_filename ans) p \<and>
        found_current A disk (aa_since ans) (aa_until ans) p a \<and>
        aa_response ans = asset_found L A (aa_filename ans) (aa_request ans) a status)"

definition system_inv :: "http_lib \<Rightarrow> asset_lib \<Rightarrow> disk \<Rightarrow> path \<Rightarrow> system \<Rightarrow> bool" where
  "system_inv L A disk root s \<longleftrightarrow>
     ap_asset_path (sy_app s) = root \<and>
     (\<forall>x \<in> asset_log (ap_cache (sy_app s)). genuine A disk (sy_clock s) x) \<and>
     list_all (asset_handler_ok disk (sy_clock s) root) (sy_assets s) \<and>
     list_all (asset_answer_ok L A disk root) (sy_files s)"

lemma located_mono: "located_at disk since c root f p \<Longrightarrow> c \<le> c' \<Longrightarrow> located_at disk since c' root f p"
  unfolding located_at_def using order_trans by blast

lemma genuine_mono: "genuine A disk c x \<Longrightarrow> c \<le> c' \<Longrightarrow> genuine A disk c' x"
  unfolding genuine_def case_prod_beta using order_trans by blast

lemma asset_handler_ok_mono:
  assumes "asset_handler_ok disk c root h" and "c \<le> c'"
  shows "asset_handler_ok disk c' root h"
  using assms located_mono [OF _ assms(2)] by (cases h) (auto intro: order_trans)

text \<open>A stored copy whose stamp still fits is the current content: no modified time goes back, so that
  the file had the same stamp when it was read.\<close>

lemma genuine_current:
  assumes doc: "stamps_documented disk" and gen: "genuine A disk clock (p, a)" and "clock \<le> t"
    and stamp: "file_stamp (disk t) p = Some (as_modified a, as_len a)"
  shows "as_content a = contents (disk t) p"
proof -
  obtain t1 t2 n where times: "t1 \<le> t2" "t2 \<le> t" and s1: "file_stamp (disk t1) p = Some (as_modified a, n)"
    and read: "read (disk t2) p = Inr (as_content a)" and len: "as_len a = length (as_content a)"
    using gen assms(3) unfolding genuine_def by auto
  obtain m where c: "as_content a = contents (disk t2) p" and s2: "file_stamp (disk t2) p = Some (m, as_len a)"
    using doc read len unfolding stamps_documented_def by metis
  have mono: "m1 \<le> m2" if "u \<le> v" "file_stamp (disk u) p = Some (m1, n1)" "file_stamp (disk v) p = Some (m2, n2)"
    for u v m1 m2 n1 n2
    using doc that unfolding stamps_documented_def by blast
  have "m = as_modified a"
    using mono [OF times(1) s1 s2] mono [OF times(2) s2 stamp] by simp
  then show ?thesis
    using doc c s2 stamp unfolding stamps_documented_def by metis
qed

lemma asset_lookup_logged:
  assumes "moka_sound ttl M" and "asset_lookup M s now p = Some a"
  shows "(p, a) \<in> asset_log s"
proof -
  have "entries_get M (st_entries s) now (AssetKey p) = Some (AssetEntry a)"
    using assms(2) by (auto simp: asset_lookup_def split: option.splits entry.splits)
  then show ?thesis
    using entries_get_in [OF assms(1)] by (fastforce simp: asset_log_def)
qed

lemma load_cached_Loaded:
  assumes "load_cached fs M now p app = Inr (Loaded a status)" and "moka_sound ttl M"
  shows "(p, a) \<in> asset_log (ap_cache app) \<and> file_stamp fs p = Some (as_modified a, as_len a)"
  using assms asset_lookup_logged [OF assms(2)]
  by (auto simp: load_cached_def file_stamp_def split: sum.splits option.splits if_splits)

lemma load_cached_MustRead:
  "load_cached fs M now p app = Inr (MustRead m) \<Longrightarrow> \<exists>n. file_stamp fs p = Some (m, n)"
  by (auto simp: load_cached_def file_stamp_def split: sum.splits option.splits if_splits)

lemma load_read_asset:
  assumes "load_read A fs now p modified app = Inr (Inr (a, status), app')"
  shows "read fs p = Inr (as_content a) \<and> as_modified a = modified \<and> as_len a = length (as_content a) \<and>
    asset_etag A (as_content a) = Inr (as_etag a) \<and> ap_asset_path app' = ap_asset_path app \<and>
    asset_log (ap_cache app') \<subseteq> insert (p, a) (asset_log (ap_cache app))"
  using assms
  by (auto simp: load_read_def insert_asset_def asset_log_def Let_def split: sum.splits if_splits)

lemma load_read_failed: "load_read A fs now p modified app = Inr (Inl e, app') \<Longrightarrow> app' = app"
  by (auto simp: load_read_def insert_asset_def Let_def split: sum.splits if_splits)

text \<open>A step of an asset handler keeps the stored assets genuine and answers with current content.\<close>

definition asset_step_ok ::
  "http_lib \<Rightarrow> asset_lib \<Rightarrow> disk \<Rightarrow> path \<Rightarrow> instant \<Rightarrow> app_state \<Rightarrow> asset_handler list \<Rightarrow> asset_answer list \<Rightarrow> bool" where
  "asset_step_ok L A disk root clock app hs out \<longleftrightarrow>
     ap_asset_path app = root \<and> (\<forall>x \<in> asset_log (ap_cache app). genuine A disk clock x) \<and>
     list_all (asset_handler_ok disk clock root) hs \<and> list_all (asset_answer_ok L A disk root) out"

lemma observe_asset_view [simp]: "asset_view (observe_asset r app) = asset_view app"
  by (simp add: observe_asset_def asset_view_def count_def Let_def)

lemma asset_view_eq:
  "asset_view app' = asset_view app \<Longrightarrow>
   ap_asset_path app' = ap_asset_path app \<and> asset_log (ap_cache app') = asset_log (ap_cache app)"
  by (simp add: asset_view_def)

lemma asset_reply_ok:
  assumes "asset_reply_at since clock filename req r app = (app', hs, out)"
    and "ap_asset_path app = root" and "\<forall>x \<in> asset_log (ap_cache app). genuine A disk clock x"
    and "asset_answer_ok L A disk root \<lparr>aa_since = since, aa_until = clock, aa_filename = filename,
      aa_request = req, aa_response = r\<rparr>"
  shows "asset_step_ok L A disk root clock app' hs out"
  using assms asset_view_eq [OF observe_asset_view, of r app]
  by (auto simp: asset_reply_at_def asset_step_ok_def)

lemma not_found_ok [simp]:
  "asset_answer_ok L A disk root \<lparr>aa_since = since, aa_until = clock, aa_filename = filename,
     aa_request = req, aa_response = asset_not_found\<rparr>"
  by (simp add: asset_answer_ok_def)

lemma found_ok:
  "located_at disk since clock root filename p \<Longrightarrow> found_current A disk since clock p a \<Longrightarrow>
   asset_answer_ok L A disk root \<lparr>aa_since = since, aa_until = clock, aa_filename = filename,
     aa_request = req, aa_response = asset_found L A filename req a status\<rparr>"
  unfolding asset_answer_ok_def by auto

lemma serve_located_ok:
  assumes "serve_located disk t1 t2 since filename req app = (app', hs, out)"
    and "since \<le> t1" and "t1 \<le> t2" and root: "ap_asset_path app = root"
    and gen: "\<forall>x \<in> asset_log (ap_cache app). genuine A disk t2 x"
  shows "asset_step_ok L A disk root t2 app' hs out"
proof (cases "resolve_asset (disk t1) (disk t2) (ap_asset_path app) filename")
  case None
  then show ?thesis
    using assms(1) asset_reply_ok [OF _ root gen not_found_ok] by (simp add: serve_located_def)
next
  case (Some p)
  then have "located_at disk since t2 root filename p"
    using assms(2,3) root unfolding located_at_def by blast
  then show ?thesis
    using Some assms by (auto simp: serve_located_def asset_step_ok_def)
qed

lemma serve_stamped_ok:
  assumes "serve_stamped L A disk M t now since filename req p app = (app', hs, out)"
    and doc: "stamps_documented disk" and M: "moka_sound ttl M" and clock: "clock \<le> t"
    and at: "since \<le> t" "located_at disk since t root filename p" and root: "ap_asset_path app = root"
    and old: "\<forall>x \<in> asset_log (ap_cache app). genuine A disk clock x"
    and gen: "\<forall>x \<in> asset_log (ap_cache app). genuine A disk t x"
  shows "asset_step_ok L A disk root t app' hs out"
proof (cases "load_cached (disk t) M now p app")
  case (Inl e)
  then show ?thesis
    using assms(1) asset_reply_ok [OF _ root gen not_found_ok] by (simp add: serve_stamped_def)
next
  case (Inr loading)
  show ?thesis
  proof (cases loading)
    case (Loaded a status)
    have logged: "(p, a) \<in> asset_log (ap_cache app)"
      and fits: "file_stamp (disk t) p = Some (as_modified a, as_len a)"
      using load_cached_Loaded [OF Inr [unfolded Loaded] M] by auto
    have "asset_etag A (as_content a) = Inr (as_etag a)"
      using gen logged unfolding genuine_def by fastforce
    then have "found_current A disk since t p a"
      using genuine_current [OF doc _ clock fits] old logged fits at(1) unfolding found_current_def by fastforce
    then show ?thesis
      using assms(1) Inr Loaded asset_reply_ok [OF _ root gen found_ok [OF at(2)]]
      by (simp add: serve_stamped_def)
  next
    case (MustRead m)
    then have "asset_handler_ok disk t root (AssetReading since filename req p m)"
      unfolding asset_handler_ok.simps using load_cached_MustRead Inr at by blast
    then show ?thesis
      using assms(1) Inr MustRead root gen
      by (auto simp: serve_stamped_def asset_step_ok_def simp del: asset_handler_ok.simps)
  qed
qed

lemma serve_read_ok:
  assumes "serve_read L A disk t now since filename req p modified app = Inr (app', hs, out)"
    and doc: "stamps_documented disk" and at: "since \<le> t" "located_at disk since t root filename p"
    and taken: "t0 \<le> t" "file_stamp (disk t0) p = Some (modified, n)" and root: "ap_asset_path app = root"
    and gen: "\<forall>x \<in> asset_log (ap_cache app). genuine A disk t x"
  shows "asset_step_ok L A disk root t app' hs out"
proof -
  obtain res app1 where load: "load_read A (disk t) now p modified app = Inr (res, app1)"
    using assms(1) by (auto simp: serve_read_def split: sum.splits)
  show ?thesis
  proof (cases res)
    case (Inl e)
    then show ?thesis
      using assms(1) load load_read_failed [of A "disk t" now p modified app e app1]
        asset_reply_ok [OF _ root gen not_found_ok] by (simp add: serve_read_def)
  next
    case (Inr r)
    obtain a status where r: "r = (a, status)" by force
    note read = load_read_asset [OF load [unfolded Inr r]]
    have "genuine A disk t (p, a)"
      using taken read unfolding genuine_def by auto
    then have gen1: "\<forall>x \<in> asset_log (ap_cache app1). genuine A disk t x"
      using read gen by blast
    have root1: "ap_asset_path app1 = root" using read root by simp
    have "found_current A disk since t p a"
      using doc read at unfolding found_current_def stamps_documented_def by fastforce
    then show ?thesis
      using assms(1) load Inr r asset_reply_ok [OF _ root1 gen1 found_ok [OF at(2)]]
      by (simp add: serve_read_def)
  qed
qed

lemma asset_step_preserves:
  assumes "asset_step L A disk ttl clock app h clock' app' hs out" and doc: "stamps_documented disk"
    and root: "ap_asset_path app = root" and gen: "\<forall>x \<in> asset_log (ap_cache app). genuine A disk clock x"
    and h: "asset_handler_ok disk clock root h"
  shows "clock \<le> clock' \<and> asset_step_ok L A disk root clock' app' hs out"
proof -
  have gen': "\<forall>x \<in> asset_log (ap_cache app). genuine A disk clock' x" if "clock \<le> clock'"
    using gen genuine_mono that by blast
  from assms(1) show ?thesis
  proof cases
    case (locate t1 since filename req)
    then show ?thesis
      using serve_located_ok [OF locate(4) _ locate(3) root] gen' h by auto
  next
    case (stamp M now since filename req p)
    then show ?thesis
      using serve_stamped_ok [OF stamp(4) doc stamp(3,2) _ _ root gen gen'] h located_mono by auto
  next
    case (content now since filename req p modified)
    then obtain t0 n where t0: "t0 \<le> clock'" "file_stamp (disk t0) p = Some (modified, n)"
      using h by (auto intro: order_trans)
    show ?thesis
      using serve_read_ok [OF content(3) doc _ _ t0 root gen'] content h located_mono by auto
  qed (use root gen h in \<open>auto simp: asset_step_ok_def\<close>)
qed

lemma system_step_inv:
  assumes "system_step L Y A P disk ttl s s'" and doc: "stamps_documented disk" and inv: "system_inv L A disk root s"
  shows "system_inv L A disk root s'"
  using assms(1)
proof cases
  case (proxy_handle hs1 h hs2 app' hs out)
  then show ?thesis
    using inv asset_view_eq [OF handler_step_asset_view [OF proxy_handle(3)]] by (auto simp: system_inv_def)
next
  case (asset_handle hs1 h hs2 clock' app' hs out)
  have later: "sy_clock s \<le> clock'" and ok: "asset_step_ok L A disk root clock' app' hs out"
    using asset_step_preserves [OF asset_handle(3) doc] inv asset_handle(2) by (auto simp: system_inv_def)
  then have "list_all (asset_handler_ok disk clock' root) (hs1 @ hs @ hs2)"
    using inv asset_handle(2) asset_handler_ok_mono [of disk "sy_clock s" root _ clock']
    by (auto simp: system_inv_def asset_step_ok_def list_all_iff)
  then show ?thesis
    using inv ok asset_handle by (auto simp: system_inv_def asset_step_ok_def)
next
  case (health M now)
  then show ?thesis
    using inv asset_view_eq [OF endpoint_asset_view(1), of P M now "sy_app s"] by (auto simp: system_inv_def)
next
  case (metrics print M now)
  then show ?thesis
    using inv asset_view_eq [OF endpoint_asset_view(2), of print M now "sy_app s"] by (auto simp: system_inv_def)
qed (use inv in \<open>auto simp: system_inv_def\<close>)

lemma system_reach_inv:
  assumes "system_reach L Y A P disk mb ttl root s" and "stamps_documented disk"
  shows "system_inv L A disk root s"
  using assms(1)
proof induction
  case (start s)
  then show ?case
    by (simp add: system_inv_def initial_system_def initial_world_def asset_log_def store_new_def Let_def)
next
  case (step s s')
  then show ?case using system_step_inv assms(2) by blast
qed

end
