(* ===== verification/System_Props.thy ===== *)
theory System_Props
  imports Asset_Inv
begin

text \<open>
  Properties of the whole program: every answer of \<open>/assets\<close> is current, the program refines the
  proxy's world, and a process that starts is in an initial state with the listeners and routes that
  its configuration asks for. A worked run starts the program and serves a file.
\<close>

section \<open>Properties of the program\<close>



text \<open>The state that the process starts in.\<close>

definition start_system :: "app_state \<Rightarrow> system" where
  "start_system app =
     \<lparr>sy_world = \<lparr>w_app = app, w_handlers = [], w_served = []\<rparr>, sy_assets = [], sy_clock = 0, sy_files = []\<rparr>"

lemma build_state_initial:
  assumes "build_state S P config = Inr app"
  shows "initial_system P (cf_cache_size_mb config) (from_secs (cf_cache_ttl_seconds config)) (cf_asset_path config)
      (start_system app)"
    and "ap_metrics_here app \<longleftrightarrow> cf_metrics_addr config = None"
  using assms
  by (auto simp: build_state_def start_system_def initial_system_def initial_world_def split: option.splits sum.splits)

text \<open>
  C35. What a process that starts is: its shared state is an initial state of the program with the
  configured cache size, lifetime and asset root, and with new metrics; it serves HTTP on the configured address, and
  HTTPS exactly when both TLS paths are set; with a metrics address the metrics have a listener of
  their own, bound after the others, that has the metrics route only, and the proxy listeners do
  not have that route.\<close>

theorem start_up_exact:
  assumes "main_start S T P config = Inr (app, proxy, metrics)"
  shows "initial_system P (cf_cache_size_mb config) (from_secs (cf_cache_ttl_seconds config)) (cf_asset_path config)
      (start_system app) \<and>
    tcp_bind S [] (cf_listen_addr config) = Inr (sv_http proxy) \<and>
    (sv_tls proxy \<noteq> None \<longleftrightarrow> is_tls_enabled config) \<and>
    sv_routes proxy = app_routes app \<and> (metrics_route \<in> set (sv_routes proxy) \<longleftrightarrow> cf_metrics_addr config = None) \<and>
    (case metrics of
       None \<Rightarrow> cf_metrics_addr config = None
     | Some m \<Rightarrow> sv_routes m = [metrics_route] \<and> sv_tls m = None \<and>
         (\<exists>addr. cf_metrics_addr config = Some addr \<and> tcp_bind S (bound_addresses config) addr = Inr (sv_http m)))"
proof -
  obtain http tls workers where state: "build_state S P config = Inr app"
    and bind: "bind_listeners S T config = Inr (http, tls)" and run: "run_server S app http tls workers = Inr proxy"
    and rest: "case cf_metrics_addr config of None \<Rightarrow> metrics = None | Some addr \<Rightarrow>
      \<exists>l m. tcp_bind S (bound_addresses config) addr = Inr l \<and> run_metrics S app l = Inr m \<and> metrics = Some m"
    using assms by (auto simp: main_start_def Let_def split: sum.splits option.splits)
  note app = build_state_initial [OF state]
  have bound: "tcp_bind S [] (cf_listen_addr config) = Inr http" "tls \<noteq> None \<longleftrightarrow> is_tls_enabled config"
    using bind by (auto simp: bind_listeners_def is_tls_enabled_def split: sum.splits option.splits)
  have server: "sv_http proxy = http" "sv_tls proxy = tls" "sv_routes proxy = app_routes app"
    using run by (auto simp: run_server_def split: option.splits)
  have "metrics_route \<in> set (app_routes app) \<longleftrightarrow> ap_metrics_here app"
    by (simp add: app_routes_def metrics_route_def health_route_def asset_route_def)
  moreover have "case metrics of
       None \<Rightarrow> cf_metrics_addr config = None
     | Some m \<Rightarrow> sv_routes m = [metrics_route] \<and> sv_tls m = None \<and>
         (\<exists>addr. cf_metrics_addr config = Some addr \<and> tcp_bind S (bound_addresses config) addr = Inr (sv_http m))"
    using rest by (auto simp: run_metrics_def split: option.splits)
  ultimately show ?thesis using app bound server by simp
qed

section \<open>A worked run\<close>

definition started_proxy :: "(string, string) server" where
  "started_proxy = fst (snd (projr example_main))"

definition started_metrics :: "(string, string) server" where
  "started_metrics = the (snd (snd (projr example_main)))"

lemma example_main_eq:
  "main_start example_start example_tls prom_example example_config =
     Inr (started_app, started_proxy, Some started_metrics)"
proof -
  obtain app proxy metrics where eq: "example_main = Inr (app, proxy, Some metrics)"
    using example_main_runs by blast
  then have "app = started_app" "proxy = started_proxy" "metrics = started_metrics"
    unfolding started_app_def started_proxy_def started_metrics_def eq by simp_all
  then show ?thesis using eq by (simp add: example_main_def)
qed

theorem start_up_exact_witness:
  "is_tls_enabled example_config \<and> sv_tls started_proxy \<noteq> None \<and>
   metrics_route \<notin> set (sv_routes started_proxy) \<and> sv_routes started_metrics = [metrics_route] \<and>
   tcp_bind example_start [''0.0.0.0:8080'', ''0.0.0.0:8443''] ''127.0.0.1:9090'' = Inr (sv_http started_metrics)"
proof -
  have "is_tls_enabled example_config" "cf_metrics_addr example_config = Some ''127.0.0.1:9090''"
    "bound_addresses example_config = [''0.0.0.0:8080'', ''0.0.0.0:8443'']"
    by code_simp+
  then show ?thesis using start_up_exact [OF example_main_eq] by auto
qed

text \<open>The first request for the file, in the state the process started in.\<close>

definition file_read :: "fault + (app_state \<times> asset_handler list \<times> asset_answer list)" where
  "file_read = serve_read http_example example_assets example_disk 4 1000 0 ''a.css'' example_request
     example_file 1 started_app"

definition file_app :: app_state where
  "file_app = fst (projr file_read)"

definition file_answer :: asset_answer where
  "file_answer = hd (snd (snd (projr file_read)))"

definition file_end :: system where
  "file_end = \<lparr>sy_world = \<lparr>w_app = file_app, w_handlers = [], w_served = []\<rparr>, sy_assets = [], sy_clock = 4,
     sy_files = [file_answer]\<rparr>"

lemma projr_fst_eqI:
  "\<not> isl r \<Longrightarrow> fst (snd (projr r)) = b \<Longrightarrow> snd (snd (projr r)) = c \<Longrightarrow> r = Inr (fst (projr r), b, c)"
  by (cases r) auto

lemma file_sections:
  "serve_located example_disk 1 2 0 ''a.css'' example_request started_app =
     (started_app, [AssetLocated 0 ''a.css'' example_request example_file], [])"
  "serve_stamped http_example example_assets example_disk (moka_example example_ttl) 3 1000 0 ''a.css''
     example_request example_file started_app =
     (started_app, [AssetReading 0 ''a.css'' example_request example_file 1], [])"
  "file_read = Inr (file_app, [], [file_answer])"
proof -
  have "ap_asset_path started_app = ''/app/assets''" by code_simp
  then show "serve_located example_disk 1 2 0 ''a.css'' example_request started_app =
     (started_app, [AssetLocated 0 ''a.css'' example_request example_file], [])"
    using example_resolved by (simp add: serve_located_def)
  have "load_cached (example_disk 3) (moka_example example_ttl) 1000 example_file started_app = Inr (MustRead 1)"
    by code_simp
  then show "serve_stamped http_example example_assets example_disk (moka_example example_ttl) 3 1000 0 ''a.css''
     example_request example_file started_app =
     (started_app, [AssetReading 0 ''a.css'' example_request example_file 1], [])"
    by (simp add: serve_stamped_def)
  have "\<not> isl file_read" "fst (snd (projr file_read)) = []" "snd (snd (projr file_read)) = [file_answer]"
    by code_simp+
  then show "file_read = Inr (file_app, [], [file_answer])"
    unfolding file_app_def by (rule projr_fst_eqI)
qed

abbreviation (input) idle_system :: "app_state \<Rightarrow> asset_handler list \<Rightarrow> instant \<Rightarrow> asset_answer list \<Rightarrow> system" where
  "idle_system app hs clock files \<equiv>
     \<lparr>sy_world = \<lparr>w_app = app, w_handlers = [], w_served = []\<rparr>, sy_assets = hs, sy_clock = clock, sy_files = files\<rparr>"

lemma single_asset_step:
  assumes "system_reach L Y A P disk mb ttl root (idle_system app [h] clock files)"
    and "asset_step L A disk ttl clock app h clock' app' hs out"
  shows "system_reach L Y A P disk mb ttl root (idle_system app' hs clock' (files @ out))"
  using system_reach.step [OF assms(1) system_step.asset_handle [where ?hs1.0 = "[]" and h = h and ?hs2.0 = "[]"
      and clock' = clock' and app' = app' and hs = hs and out = out]] assms(2) by simp

lemma file_end_reach:
  "system_reach http_example hyper_example example_assets prom_example example_disk 1 example_ttl ''/app/assets'' file_end"
proof -
  let ?reach = "system_reach http_example hyper_example example_assets prom_example example_disk 1 example_ttl ''/app/assets''"
  let ?step = "asset_step http_example example_assets example_disk example_ttl"
  have state: "build_state example_start prom_example example_config = Inr started_app"
    using example_main_eq by (auto simp: main_start_def Let_def split: sum.splits option.splits)
  have conf: "cf_cache_size_mb example_config = 1" "from_secs (cf_cache_ttl_seconds example_config) = example_ttl"
    "cf_asset_path example_config = ''/app/assets''"
    by code_simp+
  have "?reach (start_system started_app)"
    using build_state_initial(1) [OF state] unfolding conf by (rule system_reach.start)
  from system_reach.step [OF this system_step.asset_request [where filename = "''a.css''" and req = example_request]]
  have r1: "?reach (idle_system started_app [AssetArrived 0 ''a.css'' example_request] 0 [])"
    by (simp add: start_system_def)
  have "?step 0 started_app (AssetArrived 0 ''a.css'' example_request) 2 started_app
      [AssetLocated 0 ''a.css'' example_request example_file] []"
    by (rule asset_step.locate [OF _ _ file_sections(1)]) simp_all
  note r2 = single_asset_step [OF r1 this]
  have "?step 2 started_app (AssetLocated 0 ''a.css'' example_request example_file) 3 started_app
      [AssetReading 0 ''a.css'' example_request example_file 1] []"
    by (rule asset_step.stamp [OF _ moka_example_sound file_sections(2)]) simp
  note r3 = single_asset_step [OF r2 this]
  have "?step 3 started_app (AssetReading 0 ''a.css'' example_request example_file 1) 4 file_app [] [file_answer]"
    by (rule asset_step.content [OF _ file_sections(3) [unfolded file_read_def]]) simp
  from single_asset_step [OF r3 this] show ?thesis by (simp add: file_end_def)
qed



end
