(* ===== verification/System_Counts.thy ===== *)
theory System_Counts
  imports System_Props
begin

text \<open>
  What the program counts. Every response of the proxy and every answer of \<open>/assets\<close> is counted once,
  when it is given, under its route with its cache label and with its status class; nothing else
  changes these counters, so that \<open>/health\<close> and \<open>/metrics\<close> report the responses given so far.
\<close>

section \<open>The labels a response is counted under\<close>

definition proxy_label :: "http_lib \<Rightarrow> http_request \<times> response \<Rightarrow> string" where
  "proxy_label L = (\<lambda>(req, r). if bypasses_cache (policy_of L req) then BYPASS
     else case cache_label r of Some l \<Rightarrow> l | None \<Rightarrow> MISS)"

definition asset_label :: "asset_answer \<Rightarrow> string" where
  "asset_label ans = (case cache_label (aa_response ans) of Some l \<Rightarrow> l | None \<Rightarrow> BYPASS)"

definition occurrences :: "('a \<Rightarrow> string) \<Rightarrow> string \<Rightarrow> 'a list \<Rightarrow> nat" where
  "occurrences f l xs = length (filter (\<lambda>x. f x = l) xs)"

lemma occurrences_simps [simp]:
  "occurrences f l [] = 0"
  "occurrences f l (x # xs) = (if f x = l then Suc (occurrences f l xs) else occurrences f l xs)"
  "occurrences f l (xs @ ys) = occurrences f l xs + occurrences f l ys"
  by (simp_all add: occurrences_def)

text \<open>How often a route was counted under a cache label, and under a status class.\<close>

definition request_incs :: "metrics \<Rightarrow> route \<Rightarrow> string \<Rightarrow> nat" where
  "request_incs m r l = incs [route_label r, l] (m_requests m)"

definition response_incs :: "metrics \<Rightarrow> route \<Rightarrow> string \<Rightarrow> nat" where
  "response_incs m r c = incs [route_label r, c] (m_responses m)"

lemma incs_observe [simp]:
  "request_incs (observe r l status m) r' l' = (if r = r' \<and> l = l' then Suc else id) (request_incs m r' l')"
  "response_incs (observe r l status m) r' c = (if r = r' \<and> status_class status = c then Suc else id) (response_incs m r' c)"
  by (auto simp: request_incs_def response_incs_def observe_def)

section \<open>Sections that count nothing\<close>

abbreviation same_counts :: "app_state \<Rightarrow> app_state \<Rightarrow> bool" where
  "same_counts app app' \<equiv> request_incs (ap_metrics app') = request_incs (ap_metrics app) \<and>
     response_incs (ap_metrics app') = response_incs (ap_metrics app)"

lemma app_moves_counts: "app_moves app evs app' \<Longrightarrow> same_counts app app'"
  by (induction rule: app_moves.induct)
    (simp_all add: fun_eq_iff request_incs_def response_incs_def count_def drop_refresh_def uncounted_def)

lemma endpoint_counts:
  "same_counts app (snd (health_check P M now app))"
  "same_counts app (snd (metrics_endpoint print M now app))"
  by (simp_all add: fun_eq_iff request_incs_def response_incs_def health_check_def metrics_endpoint_def encode_def
      cache_counts_reads Let_def split_beta)

lemma metrics_new_counts: "metrics_new P = Inr m \<Longrightarrow> request_incs m r l = 0 \<and> response_incs m r l = 0"
  by (auto simp: metrics_new_def initialise_series_def request_incs_def response_incs_def split: sum.splits)

section \<open>The proxy\<close>

lemma observe_response_counts:
  "request_incs (ap_metrics (observe_response (policy_of L req) r app)) rt l =
     request_incs (ap_metrics app) rt l + (if rt = ProxyRoute then occurrences (proxy_label L) l [(req, r)] else 0)"
  "response_incs (ap_metrics (observe_response (policy_of L req) r app)) rt c =
     response_incs (ap_metrics app) rt c +
       (if rt = ProxyRoute then occurrences (\<lambda>q. status_class (rs_status (snd q))) c [(req, r)] else 0)"
  by (auto simp: observe_response_def count_def proxy_label_def Let_def)

lemma answer_counted_counts:
  "request_incs (ap_metrics (answer_counted L out app)) rt l =
     request_incs (ap_metrics app) rt l + (if rt = ProxyRoute then occurrences (proxy_label L) l out else 0)"
  "response_incs (ap_metrics (answer_counted L out app)) rt c =
     response_incs (ap_metrics app) rt c +
       (if rt = ProxyRoute then occurrences (\<lambda>q. status_class (rs_status (snd q))) c out else 0)"
  by (induction out arbitrary: app) (auto simp: answer_counted_def observe_response_counts)

lemma handler_step_counts:
  assumes "handler_step L Y ttl app h app' hs out"
  shows "request_incs (ap_metrics app') rt l =
      request_incs (ap_metrics app) rt l + (if rt = ProxyRoute then occurrences (proxy_label L) l out else 0)"
    and "response_incs (ap_metrics app') rt c =
      response_incs (ap_metrics app) rt c +
        (if rt = ProxyRoute then occurrences (\<lambda>q. status_class (rs_status (snd q))) c out else 0)"
proof -
  obtain app1 evs where "app_moves app evs app1" and app': "app' = answer_counted L out app1"
    using handler_step_moves [OF assms] unfolding moves_with_def by blast
  then have "same_counts app app1" using app_moves_counts by blast
  then show "request_incs (ap_metrics app') rt l =
      request_incs (ap_metrics app) rt l + (if rt = ProxyRoute then occurrences (proxy_label L) l out else 0)"
    and "response_incs (ap_metrics app') rt c =
      response_incs (ap_metrics app) rt c +
        (if rt = ProxyRoute then occurrences (\<lambda>q. status_class (rs_status (snd q))) c out else 0)"
    by (simp_all add: app' answer_counted_counts)
qed

section \<open>The assets\<close>

text \<open>What an asset section counts is what it answers, and no label but the asset route's own is used.\<close>

definition asset_counted :: "app_state \<Rightarrow> app_state \<Rightarrow> asset_answer list \<Rightarrow> bool" where
  "asset_counted app app' out \<longleftrightarrow>
     (\<forall>rt l. request_incs (ap_metrics app') rt l =
        request_incs (ap_metrics app) rt l + (if rt = AssetRoute then occurrences asset_label l out else 0)) \<and>
     (\<forall>rt c. response_incs (ap_metrics app') rt c = response_incs (ap_metrics app) rt c +
        (if rt = AssetRoute then occurrences (\<lambda>ans. status_class (rs_status (aa_response ans))) c out else 0)) \<and>
     list_all (\<lambda>ans. List.member ASSET_CACHE_LABELS (asset_label ans)) out"

lemma asset_counted_none: "same_counts app app' \<Longrightarrow> asset_counted app app' []"
  by (simp add: asset_counted_def)

lemma asset_label_found:
  "List.member ASSET_CACHE_LABELS (asset_label ans)"
  if "aa_response ans = asset_not_found \<or> (\<exists>a. aa_response ans = asset_found L A f req a HIT) \<or>
    (\<exists>a. aa_response ans = asset_found L A f req a MISS)"
proof -
  have "cache_label (asset_found L A f req a status) = Some status" if "status = HIT \<or> status = MISS" for a status
    using that by (auto simp: asset_found_def cache_label_def get_def Let_def CACHE_LABELS_def label_defs)
  then show ?thesis
    using that by (auto simp: asset_label_def asset_not_found_def cache_label_def get_def ASSET_CACHE_LABELS_def)
qed

lemma asset_reply_counted:
  assumes "asset_reply_at since until f req r app1 = (app', hs, out)" and "same_counts app app1"
    and "r = asset_not_found \<or> (\<exists>a. r = asset_found L A f req a HIT) \<or> (\<exists>a. r = asset_found L A f req a MISS)"
  shows "asset_counted app app' out"
proof -
  let ?ans = "\<lparr>aa_since = since, aa_until = until, aa_filename = f, aa_request = req, aa_response = r\<rparr>"
  have "out = [?ans]" "app' = observe_asset r app1" using assms(1) by (auto simp: asset_reply_at_def)
  moreover have "List.member ASSET_CACHE_LABELS (asset_label ?ans)" using assms(3) by (intro asset_label_found) simp
  ultimately show ?thesis
    using assms(2) by (auto simp: asset_counted_def observe_asset_def count_def asset_label_def Let_def)
qed

lemma load_cached_hit: "load_cached fs M now p app = Inr (Loaded a status) \<Longrightarrow> status = HIT"
  by (auto simp: load_cached_def split: sum.splits option.splits if_splits)

lemma load_read_counts:
  "load_read A fs now p modified app = Inr (r, app') \<Longrightarrow> same_counts app app' \<and> (\<forall>a status. r = Inr (a, status) \<longrightarrow> status = MISS)"
  by (auto simp: load_read_def split: sum.splits prod.splits)

lemma asset_step_counted:
  assumes "asset_step L A disk ttl clock app h clock' app' hs out"
  shows "asset_counted app app' out"
  using assms
proof cases
  case (locate t1 since filename req)
  then show ?thesis
    using asset_counted_none asset_reply_counted [of since clock' filename req asset_not_found app app' hs out app]
    by (auto simp: serve_located_def split: option.splits)
next
  case (stamp M now since filename req p)
  then show ?thesis
    using asset_counted_none asset_reply_counted [of since clock' filename req _ app app' hs out app] load_cached_hit
    by (fastforce simp: serve_stamped_def split: sum.splits loading.splits)
next
  case (content now since filename req p modified)
  then obtain r app1 where read: "load_read A (disk clock') now p modified app = Inr (r, app1)"
    by (auto simp: serve_read_def split: sum.splits)
  show ?thesis
    using content load_read_counts [OF read] read asset_reply_counted [of since clock' filename req _ app1 app' hs out app]
    by (cases r) (fastforce simp: serve_read_def)+
qed (simp add: asset_counted_none)

section \<open>The invariant\<close>

definition counted :: "http_lib \<Rightarrow> system \<Rightarrow> bool" where
  "counted L s \<longleftrightarrow>
     (\<forall>rt l. request_incs (ap_metrics (sy_app s)) rt l =
        (case rt of ProxyRoute \<Rightarrow> occurrences (proxy_label L) l (w_served (sy_world s))
         | AssetRoute \<Rightarrow> occurrences asset_label l (sy_files s))) \<and>
     (\<forall>rt c. response_incs (ap_metrics (sy_app s)) rt c =
        (case rt of ProxyRoute \<Rightarrow> occurrences (\<lambda>q. status_class (rs_status (snd q))) c (w_served (sy_world s))
         | AssetRoute \<Rightarrow> occurrences (\<lambda>ans. status_class (rs_status (aa_response ans))) c (sy_files s))) \<and>
     list_all (\<lambda>ans. List.member ASSET_CACHE_LABELS (asset_label ans)) (sy_files s)"

lemma system_step_counted:
  assumes "system_step L Y A P disk ttl s s'" and inv: "counted L s"
  shows "counted L s'"
  using assms(1)
proof cases
  case (proxy_handle hs1 h hs2 app' hs out)
  then show ?thesis using inv handler_step_counts [OF proxy_handle(3)] by (simp add: counted_def split: route.split)
next
  case (asset_handle hs1 h hs2 clock' app' hs out)
  then show ?thesis
    using inv asset_step_counted [OF asset_handle(3)] by (simp add: counted_def asset_counted_def split: route.split)
next
  case (health M now)
  show ?thesis using inv endpoint_counts(1) [of P M now "sy_app s"] unfolding health counted_def by (simp split: route.split)
next
  case (metrics print M now)
  show ?thesis using inv endpoint_counts(2) [of print M now "sy_app s"] unfolding metrics counted_def by (simp split: route.split)
qed (use inv in \<open>simp_all add: counted_def split: route.split\<close>)

lemma system_reach_counted: "system_reach L Y A P disk mb ttl root s \<Longrightarrow> counted L s"
proof (induction rule: system_reach.induct)
  case (start s)
  then have "w_served (sy_world s) = []" "sy_files s = []" "metrics_new P = Inr (ap_metrics (sy_app s))"
    by (auto simp: initial_system_def initial_world_def)
  then show ?case using metrics_new_counts by (simp add: counted_def split: route.split)
next
  case (step s s')
  then show ?case using system_step_counted by blast
qed

section \<open>What is reported\<close>

lemma occurrences_total:
  assumes "list_all (\<lambda>x. List.member labels (f x)) xs" and "distinct labels"
  shows "length xs = sum_list (map (\<lambda>l. occurrences f l xs) labels)"
  using assms(1)
proof (induction xs)
  case (Cons x xs)
  have "sum_list (map (\<lambda>l. occurrences f l (x # xs)) labels) =
      sum_list (map (\<lambda>l. (if f x = l then 1 else 0) + occurrences f l xs) labels)"
    by (rule arg_cong [where f = sum_list]) simp
  also have "\<dots> = sum_list (map (\<lambda>l. if f x = l then 1 else 0) labels) + length xs"
    using Cons by (simp add: sum_list_addf)
  also have "sum_list (map (\<lambda>l. if f x = l then 1 else 0) labels) = (1 :: nat)"
    using Cons.prems assms(2) by (simp add: sum_list_distinct_conv_sum_set)
  finally show ?case by simp
qed (induction labels; simp)

lemma proxy_label_known: "List.member CACHE_LABELS (proxy_label L q)"
proof -
  have "cache_label (snd q) = Some l \<Longrightarrow> l \<in> set CACHE_LABELS" for l
    by (auto simp: cache_label_def find_Some_iff split: option.splits)
  then show ?thesis
    by (auto simp: proxy_label_def CACHE_LABELS_def split: prod.split option.split)
qed

text \<open>
  A background revalidation that the origin answers with 304 is counted as a revalidation, although no
  response is given: the count of revalidations, and with it \<open>hit_ratio\<close>, is not a count of responses.\<close>

theorem background_revalidation_counted:
  assumes "refresh L Y M wall now t r app = (cl, app')" and "hd_status (head_from_upstream Y r) = 304"
  shows "m_revalidations (ap_metrics app') = Suc (m_revalidations (ap_metrics app)) \<and> same_counts app app' \<and> cl = None"
  using assms
  by (auto simp: refresh_def Let_def drop_refresh_def count_def revalidation_def fun_eq_iff request_incs_def
      response_incs_def)

text \<open>
  C37. The counts of \<open>/health\<close> and of the response metrics are those of the responses that were given:
  in every reachable state of the program, hits, misses, stale and coalesced answers are the numbers
  of responses of the proxy with that label and of answers of \<open>/assets\<close> with that label (a proxied
  bypass is a miss), every response is counted under exactly one of these labels, as a revalidated
  one or as an asset that was not found, and each status class of each route counts its responses.
  Counters wrap at 64 bits.\<close>

theorem health_counts_served:
  assumes "system_reach L Y A P disk mb ttl root s" and "prom_documented P"
  shows "let counts = fst (cache_counts_of P (ap_metrics (sy_app s)));
      proxied = (\<lambda>l. occurrences (proxy_label L) l (w_served (sy_world s)));
      files = (\<lambda>l. occurrences asset_label l (sy_files s)) in
    cc_hits counts = of_nat (proxied HIT + files HIT) \<and>
    cc_misses counts = of_nat (proxied MISS + files MISS + proxied BYPASS) \<and>
    cc_stale counts = of_nat (proxied STALE) \<and> cc_coalesced counts = of_nat (proxied COALESCED) \<and>
    of_nat (length (w_served (sy_world s)) + length (sy_files s)) =
      cc_hits counts + cc_misses counts + cc_stale counts + cc_coalesced counts +
      of_nat (proxied REVALIDATED + files BYPASS) \<and>
    vec_value P (m_responses (ap_metrics (sy_app s))) [''proxy'', c] =
      of_nat (occurrences (\<lambda>(req, r). status_class (rs_status r)) c (w_served (sy_world s))) \<and>
    vec_value P (m_responses (ap_metrics (sy_app s))) [''asset'', c] =
      of_nat (occurrences (\<lambda>ans. status_class (rs_status (aa_response ans))) c (sy_files s))"
proof -
  let ?m = "ap_metrics (sy_app s)" and ?served = "w_served (sy_world s)"
  let ?p = "\<lambda>l. occurrences (proxy_label L) l ?served" and ?f = "\<lambda>l. occurrences asset_label l (sy_files s)"
  have inv: "counted L s" by (rule system_reach_counted [OF assms(1)])
  then have known: "list_all (\<lambda>ans. List.member ASSET_CACHE_LABELS (asset_label ans)) (sy_files s)"
    and requests: "incs [''proxy'', l] (m_requests ?m) = ?p l" "incs [''asset'', l] (m_requests ?m) = ?f l"
    and responses: "incs [''proxy'', c] (m_responses ?m) = occurrences (\<lambda>q. status_class (rs_status (snd q))) c ?served"
      "incs [''asset'', c] (m_responses ?m) = occurrences (\<lambda>ans. status_class (rs_status (aa_response ans))) c (sy_files s)"
    for l
    unfolding counted_def request_incs_def response_incs_def
    by (metis route.case route_label.simps)+
  have none: "?f l = 0" if "\<not> List.member ASSET_CACHE_LABELS l" for l
    using known that by (auto simp: occurrences_def filter_empty_conv list_all_iff)
  have f: "?f STALE = 0" "?f COALESCED = 0"
    by (rule none; simp add: ASSET_CACHE_LABELS_def label_defs)+
  have total: "length ?served = ?p HIT + (?p MISS + (?p REVALIDATED + (?p STALE + (?p COALESCED + ?p BYPASS))))"
    "length (sy_files s) = ?f HIT + (?f MISS + ?f BYPASS)"
    using occurrences_total [of CACHE_LABELS "proxy_label L" ?served] proxy_label_known
      occurrences_total [OF known]
    by (simp_all add: CACHE_LABELS_def ASSET_CACHE_LABELS_def label_defs list_all_iff)
  have counts: "cc_hits (fst (cache_counts_of P ?m)) = of_nat (?p HIT + ?f HIT)"
    "cc_misses (fst (cache_counts_of P ?m)) = of_nat (?p MISS + ?f MISS + ?p BYPASS)"
    "cc_stale (fst (cache_counts_of P ?m)) = of_nat (?p STALE)"
    "cc_coalesced (fst (cache_counts_of P ?m)) = of_nat (?p COALESCED)"
    unfolding cache_counts_incs [OF assms(2)] cache_counts.simps by (simp_all add: requests f)
  show ?thesis
    unfolding Let_def by (simp add: counts total f vec_value_incs [OF assms(2)] responses split_def)
qed

theorem health_counts_served_witness:
  "cc_misses (fst (cache_counts_of prom_example (ap_metrics (sy_app file_end)))) = 1 \<and>
   vec_value prom_example (m_responses (ap_metrics (sy_app file_end))) [''asset'', ''2xx''] = 1"
proof -
  have "asset_label file_answer = MISS" "status_class (rs_status (aa_response file_answer)) = ''2xx''" by code_simp+
  then show ?thesis
    using health_counts_served [OF file_end_reach prom_example_documented, of "''2xx''"]
    by (simp add: Let_def file_end_def label_defs)
qed

end
