(* ===== verification/System_Panics.thy ===== *)
theory System_Panics
  imports System_Props
begin

text \<open>
  Where the running program can panic, which ends the process: only when the age of a stale response
  does not fit in a \<open>Duration\<close>, and when the deadline of an idle timeout does not fit in an \<open>Instant\<close>.
\<close>

section \<open>Ages that overflow\<close>

definition age_overflows :: "stored_response \<Rightarrow> instant \<Rightarrow> bool" where
  "age_overflows r now \<longleftrightarrow> duration_max < sr_initial_age r + elapsed (sr_stored_at r) now"

lemma cached_response_Inl: "cached_response stored now label = Inl f \<longleftrightarrow> f = DurationOverflow \<and> age_overflows stored now"
  by (auto simp: cached_response_def response_age_def age_overflows_def split: sum.split)

lemma from_cache_Inl:
  assumes "store_inv L0 (ap_cache app) H" and "moka_sound ttl M" and "st_ttl (ap_cache app) = ttl"
    and "from_cache L Y M now req key policy use app = Inl f"
  shows "f = DurationOverflow \<and> (\<exists>e. lookup M (ap_cache app) now key (rq_headers req) (max_age policy) = Inr (Some (Stale e)) \<and>
    may_serve_stale policy \<and> may_serve_while_revalidating (se_response e) now \<and> age_overflows (se_response e) now \<and>
    duration_max < sr_initial_age (se_response e) + 2 * ttl)"
proof -
  let ?res = "lookup M (ap_cache app) now key (rq_headers req) (max_age policy)"
  have no: "?res \<noteq> Inl f'" for f' by (rule lookup_no_fault [OF assms(1,2)])
  have fresh: "\<not> age_overflows r now" if res: "?res = Inr (Some (Fresh r))" for r
  proof -
    obtain ix t where "stored_in (ap_cache app) t (lookup_key ix key (rq_headers req)) r"
      by (metis lookup_stored [OF assms(2) res] result_response.simps(1))
    moreover have "is_fresh r now" using res by (auto elim!: lookup_Inr)
    ultimately show ?thesis
      using store_inv_stored(1) [OF assms(1)] elapsed_fresh_fits unfolding age_overflows_def by fastforce
  qed
  have late: "duration_max < sr_initial_age (se_response e) + 2 * ttl"
    if res: "?res = Inr (Some (Stale e))" and "age_overflows (se_response e) now" for e
  proof -
    obtain ix t where "stored_in (ap_cache app) t (lookup_key ix key (rq_headers req)) (se_response e)"
      "now \<le> t + entry_ttl (ResponseEntry (se_response e))"
      by (metis lookup_stored [OF assms(2) res] result_response.simps(2))
    moreover note store_inv_stored(1) [OF assms(1) this(1)]
    ultimately have "elapsed (sr_stored_at (se_response e)) now \<le> 2 * ttl"
      using entry_ttl_response_le [of "ap_cache app" t "se_response e"] assms(3) by (auto simp: response_ok_def elapsed_def)
    then show ?thesis using that(2) by (simp add: age_overflows_def)
  qed
  show ?thesis
    using assms(4) no fresh late
    by (auto simp: from_cache_def while_revalidating_def cached_response_Inl
        split: if_splits sum.splits option.splits lookup_result.splits)
qed

text \<open>The stale response that a request finds in the store has an age that overflows.\<close>

definition overflow_found ::
  "http_lib \<Rightarrow> moka \<Rightarrow> instant \<Rightarrow> duration \<Rightarrow> http_request \<Rightarrow> store \<Rightarrow> bool" where
  "overflow_found L M now ttl req s \<longleftrightarrow>
     (\<exists>e. lookup M s now (cache_key_of L req) (rq_headers req) (max_age (policy_of L req)) = Inr (Some (Stale e)) \<and>
        may_serve_stale (policy_of L req) \<and> may_serve_while_revalidating (se_response e) now \<and>
        age_overflows (se_response e) now \<and> duration_max < sr_initial_age (se_response e) + 2 * ttl)"

lemma from_cache_unanswered:
  "from_cache L Y M now req key policy use app = Inr (c, task, app') \<Longrightarrow> cached_or c None app' = (Origin to, app2) \<Longrightarrow>
     ap_cache app2 = ap_cache app"
  by (cases c) (auto simp: from_cache_def while_revalidating_def
      split: if_splits sum.splits option.splits lookup_result.splits)

lemma serve_Inl:
  assumes "store_inv L0 (ap_cache app) H" and "moka_sound ttl M" and "st_ttl (ap_cache app) = ttl"
  shows "serve_after_wait L Y M now req (cache_key_of L req) (policy_of L req) app = Inl f \<Longrightarrow>
      f = DurationOverflow \<and> overflow_found L M now ttl req (ap_cache app)"
    and "serve_from_cache L Y M now req (cache_key_of L req) (policy_of L req) app = Inl f \<Longrightarrow>
      f = DurationOverflow \<and> overflow_found L M now ttl req (ap_cache app)"
proof -
  let ?from = "from_cache L Y M now req (cache_key_of L req) (policy_of L req)"
  have found: "f = DurationOverflow \<and> overflow_found L M now ttl req (ap_cache app)"
    if "?from use app1 = Inl f" "ap_cache app1 = ap_cache app" for use app1
    using from_cache_Inl [of L0 app1 H ttl M] that assms unfolding overflow_found_def by metis
  show "f = DurationOverflow \<and> overflow_found L M now ttl req (ap_cache app)"
    if "serve_after_wait L Y M now req (cache_key_of L req) (policy_of L req) app = Inl f"
    using that found by (auto simp: serve_after_wait_def split: sum.splits prod.splits)
  show "f = DurationOverflow \<and> overflow_found L M now ttl req (ap_cache app)"
    if fault: "serve_from_cache L Y M now req (cache_key_of L req) (policy_of L req) app = Inl f"
  proof (cases "?from Hit app")
    case (Inr p)
    then obtain c task app1 where c: "?from Hit app = Inr (c, task, app1)" by (cases p) auto
    then obtain to app2 g app3 where "cached_or c None app1 = (Origin to, app2)"
      "join_flight M now req (cache_key_of L req) (policy_of L req) app2 = (Lead g, app3)" "?from Hit app3 = Inl f"
      using fault by (auto simp: serve_from_cache_def split: sum.splits prod.splits before.splits join.splits)
    then show ?thesis
      using found from_cache_unanswered [OF c] join_flight_cache by metis
  qed (use fault found in \<open>simp add: serve_from_cache_def\<close>)
qed

section \<open>The other sections\<close>

lemma unstored_age [simp]: "response_age (new_response s now sp status headers body) now = add_dur (so_initial_age sp) 0"
  by (simp add: response_age_def new_response_simps elapsed_def)

lemma storable_age_fits: "storable L wall policy request status response = Some (sp, vary) \<Longrightarrow> so_initial_age sp \<le> duration_max"
proof -
  have "origin_age L response \<le> duration_max"
    by (auto simp: origin_age_def from_secs_def duration_max_def nanos_per_sec_def bind_eq_Some_conv
        split: option.split dest!: parse_u64_bound)
  then show "storable L wall policy request status response = Some (sp, vary) \<Longrightarrow> so_initial_age sp \<le> duration_max"
    by (auto simp: storable_Some)
qed

lemma freshen_age: "\<not> age_overflows (fst (freshen L M s wall now e policy request update age)) now"
proof -
  obtain r s' where f: "freshen L M s wall now e policy request update age = (r, s')" by force
  have "sr_initial_age r \<le> duration_max"
    using f storable_age_fits
    by (auto simp: freshen_def Let_def insert_response_eq unstored_response_def new_response_simps default_storable_def
        split: option.splits if_splits prod.splits)
  then show ?thesis using freshen_result(4) [OF f] f by (simp add: age_overflows_def elapsed_def)
qed

lemma arrive_Inl:
  assumes "arrive L Y M wall now x outcome app = Inl f"
  shows "f = DurationOverflow \<and> (\<exists>e. xc_stale x = Some e \<and> exchange_may_serve_on_error x e now \<and>
    age_overflows (se_response e) now)"
proof -
  have "revalidated L M wall now x e h app1 \<noteq> Inl f'" for e h app1 f'
    using freshen_age by (auto simp: revalidated_def cached_response_Inl split_beta split: sum.splits)
  then show ?thesis
    using assms
    by (auto simp: arrive_def answered_def failed_def Let_def cached_response_Inl
        split: origin_outcome.splits option.splits if_splits sum.splits prod.splits)
qed

lemma idle_poll_Inl: "idle_poll sleep this now inner = Inl f \<Longrightarrow> f = InstantOverflow \<and> instant_limit \<le> now + it_idle this"
  by (auto simp: idle_poll_def add_instant_def split: if_splits sum.splits poll.splits)

lemma serve_read_total:
  assumes "asset_lib_documented A"
  shows "serve_read L A disk t now since filename req p modified app \<noteq> Inl f"
  using asset_etag_total [OF assms]
  by (auto simp: serve_read_def load_read_def split: sum.splits prod.splits) (metis Inl_Inr_False)

section \<open>The program\<close>

text \<open>
  C19. Where the program can panic. In every reachable state, a section of a handler panics in two cases
  only: the age of a stale response that the request may be given, within its stale-while-revalidate
  or its stale-if-error window, does not fit in a \<open>Duration\<close>, and the response must then have been
  stored with an initial age within twice the configured lifetime of \<open>Duration::MAX\<close> when it is found in
  the store; or the clock plus the upstream timeout does not fit in an \<open>Instant\<close> when a body is
  polled. A fresh response never panics, nor does one that was just revalidated, and \<open>/assets\<close>
  never does.\<close>

theorem panics_only_on_overflow:
  assumes "system_reach L Y A P disk mb ttl root s" and "http_date_documented L" and "asset_lib_documented A"
    and "moka_sound ttl M"
  shows "((serve_from_cache L Y M now req (cache_key_of L req) (policy_of L req) (sy_app s) = Inl f \<or>
       serve_after_wait L Y M now req (cache_key_of L req) (policy_of L req) (sy_app s) = Inl f) \<longrightarrow>
     f = DurationOverflow \<and> overflow_found L M now ttl req (ap_cache (sy_app s))) \<and>
   (arrive L Y M wall now x outcome (sy_app s) = Inl f \<longrightarrow>
     f = DurationOverflow \<and> (\<exists>e. xc_stale x = Some e \<and> exchange_may_serve_on_error x e now \<and>
       age_overflows (se_response e) now)) \<and>
   (poll_streamed sleep M now sb inner (sy_app s) = Inl f \<longrightarrow>
     f = InstantOverflow \<and> instant_limit \<le> now + it_idle (sb_idle sb)) \<and>
   (poll_collecting Y sleep M now cl inner (sy_app s) = Inl f \<longrightarrow>
     f = InstantOverflow \<and> instant_limit \<le> now + it_idle (cl_idle cl)) \<and>
   serve_read L A disk t now since filename req' p modified (sy_app s) \<noteq> Inl f"
proof (intro conjI impI)
  obtain H where "store_run L mb ttl (ap_cache (sy_app s)) H"
    using world_reach_inv [OF system_reach_world [OF assms(1)] assms(2)] by (auto simp: world_inv_def history_def)
  then have store: "store_inv L (ap_cache (sy_app s)) H" "st_ttl (ap_cache (sy_app s)) = ttl"
    using store_run_inv [OF _ assms(2)] store_run_params by blast+
  show "f = DurationOverflow" "overflow_found L M now ttl req (ap_cache (sy_app s))"
    if "serve_from_cache L Y M now req (cache_key_of L req) (policy_of L req) (sy_app s) = Inl f \<or>
       serve_after_wait L Y M now req (cache_key_of L req) (policy_of L req) (sy_app s) = Inl f"
    using that serve_Inl [OF store(1) assms(4) store(2)] by blast+
  show "f = DurationOverflow" "\<exists>e. xc_stale x = Some e \<and> exchange_may_serve_on_error x e now \<and>
       age_overflows (se_response e) now"
    if "arrive L Y M wall now x outcome (sy_app s) = Inl f"
    using arrive_Inl [OF that] by blast+
  show "f = InstantOverflow" "instant_limit \<le> now + it_idle (sb_idle sb)"
    if "poll_streamed sleep M now sb inner (sy_app s) = Inl f"
    using that by (auto simp: poll_streamed_def Let_def split: sum.splits prod.splits dest: idle_poll_Inl)
  show "f = InstantOverflow" "instant_limit \<le> now + it_idle (cl_idle cl)"
    if "poll_collecting Y sleep M now cl inner (sy_app s) = Inl f"
    using that by (auto simp: poll_collecting_def Let_def split: sum.splits prod.splits dest: idle_poll_Inl)
  show "serve_read L A disk t now since filename req' p modified (sy_app s) \<noteq> Inl f"
    by (rule serve_read_total [OF assms(3)])
qed

theorem panics_only_on_overflow_witness:
  "\<nexists>f. serve_from_cache http_example hyper_example (moka_example example_ttl) 5000 example_request
     (cache_key_of http_example example_request) (policy_of http_example example_request) (sy_app file_end) = Inl f"
proof
  assume "\<exists>f. serve_from_cache http_example hyper_example (moka_example example_ttl) 5000 example_request
     (cache_key_of http_example example_request) (policy_of http_example example_request) (sy_app file_end) = Inl f"
  then have "overflow_found http_example (moka_example example_ttl) 5000 example_ttl example_request
      (ap_cache (sy_app file_end))"
    using panics_only_on_overflow [OF file_end_reach http_example_documented(5) example_assets_documented
        moka_example_sound] by blast
  moreover have "index_get (moka_example example_ttl) (st_index (ap_cache file_app)) 5000
      (cache_key_of http_example example_request) = None" by code_simp
  ultimately show False by (simp add: overflow_found_def file_end_def lookup_def)
qed

end
