(* ===== verification/World_Invariant.thy ===== *)
theory World_Invariant
  imports Proxy_World
begin

text \<open>
  Invariants of the running proxy. An invariant speaks of the shared state, the suspended handlers
  and the answers given so far. It holds of every reachable world when it holds at the start, a new
  request keeps it, every section of every handler keeps it, and so does what the other endpoints do:
  they store assets, read the store's counts and count metrics.
\<close>

text \<open>What the other endpoints may do to the shared state.\<close>

inductive other_step :: "app_state \<Rightarrow> app_state \<Rightarrow> bool" where
  other_asset: "other_step app
    (app\<lparr>ap_cache := snd (insert_asset (ap_cache app) now path content etag modified)\<rparr>)"
| other_entry_count: "other_step app (app\<lparr>ap_cache := snd (entry_count M (ap_cache app) now)\<rparr>)"
| other_weighted_size: "other_step app (app\<lparr>ap_cache := snd (weighted_size M (ap_cache app) now)\<rparr>)"
| other_count: "other_step app (count f app)"

inductive_cases other_stepE [elim!]: "other_step app app'"

locale world_invariant =
  fixes L :: http_lib and Y :: hyper_lib and mb :: nat and ttl :: duration
    and holds :: "app_state \<Rightarrow> handler list \<Rightarrow> served \<Rightarrow> bool"
  assumes initially: "ap_cache app = store_new mb ttl \<Longrightarrow> ap_flights app = flights_default \<Longrightarrow> holds app [] []"
    and request_keeps: "holds app hs out \<Longrightarrow> holds app (hs @ [Arrived req]) out"
    and section_keeps: "holds app (hs1 @ h # hs2) out \<Longrightarrow> handler_step L Y ttl app h app' hs out' \<Longrightarrow>
      holds app' (hs1 @ hs @ hs2) (out @ out')"
    and other_keeps: "holds app hs out \<Longrightarrow> other_step app app' \<Longrightarrow> holds app' hs out"
begin

lemma step_keeps:
  assumes "world_step L Y ttl w w'" and inv: "holds (w_app w) (w_handlers w) (w_served w)"
  shows "holds (w_app w') (w_handlers w') (w_served w')"
  using assms(1)
proof cases
  case (handle hs1 h hs2 app' hs out)
  then show ?thesis using inv section_keeps [of "w_app w" hs1 h hs2] by simp
next
  case (request req)
  then show ?thesis using inv request_keeps by simp
qed (use other_keeps [OF inv] other_step.intros in simp_all)

lemma reachable: "world_reach L Y mb ttl w \<Longrightarrow> holds (w_app w) (w_handlers w) (w_served w)"
proof (induction rule: world_reach.induct)
  case (start w)
  then show ?case using initially by (simp add: initial_world_def)
next
  case (step w w')
  then show ?case using step_keeps by blast
qed

end

end
