(* ===== verification/Proxy_Unsafe.thy ===== *)
theory Proxy_Unsafe
  imports Proxy_Props World_Invariant
begin

text \<open>
  Unsafe requests. Only a GET carries a stale response to the origin, so that the answer to an unsafe
  request is never replaced by a stored one, and a successful answer removes what is stored for its
  target URI.
\<close>

section \<open>Stale responses go with GET requests\<close>

fun stale_for_get :: "handler \<Rightarrow> bool" where
  "stale_for_get (Departing req to) \<longleftrightarrow> to_stale to = None \<or> rq_method req = ''GET''"
| "stale_for_get (AtOrigin x) \<longleftrightarrow> xc_stale x = None \<or> rq_method (xc_req x) = ''GET''"
| "stale_for_get _ \<longleftrightarrow> True"

lemma from_cache_stale:
  "from_cache L Y M now req key policy use app = Inr (CachedStale e, task, app') \<Longrightarrow> rq_method req = ''GET''"
  by (auto simp: from_cache_def split: if_splits sum.splits option.splits lookup_result.splits)

lemma cached_or_stale:
  "cached_or c fl app = (Origin to, app') \<Longrightarrow> to_stale to = None \<or> (\<exists>e. c = CachedStale e)"
  by (cases c) auto

lemma serve_stale:
  "serve_from_cache L Y M now req key policy app = Inr (Origin to, task, app') \<Longrightarrow>
     to_stale to = None \<or> rq_method req = ''GET''"
  "serve_after_wait L Y M now req key policy app = Inr (Origin to, task, app') \<Longrightarrow>
     to_stale to = None \<or> rq_method req = ''GET''"
  by (auto simp: serve_from_cache_def serve_after_wait_def
      split: sum.splits prod.splits before.splits join.splits dest!: cached_or_stale dest: from_cache_stale)

lemma body_handlers_get: "list_all stale_for_get (body_handlers b)"
  by (cases b) auto

lemma respond_get: "respond L req r app = (app', hs, out) \<Longrightarrow> list_all stale_for_get hs"
  by (auto simp: respond_def body_handlers_get)

lemma proceed_get:
  "proceed L req b app = (app', hs, out) \<Longrightarrow> (\<And>to. b = Origin to \<Longrightarrow> to_stale to = None \<or> rq_method req = ''GET'') \<Longrightarrow>
   list_all stale_for_get hs"
  by (cases b) (auto dest: respond_get)

lemma depart_sent: "depart L Y req key policy to payload ch app = (Sent x parts body, app') \<Longrightarrow>
    xc_stale x = to_stale to \<and> xc_req x = req"
  by (auto simp: depart_def Let_def split: option.splits sum.splits)

lemma spawned_get: "list_all stale_for_get (spawned task)"
  by (cases task) (auto simp: spawned_def)

lemma handler_step_get:
  "handler_step L Y ttl app h app' hs out \<Longrightarrow> stale_for_get h \<Longrightarrow> list_all stale_for_get hs"
proof (induction rule: handler_step.induct)
  case (serve M wall app now req b task app1 app' hs out)
  then show ?case using serve_stale(1) proceed_get spawned_get by fastforce
next
  case (woken M wall app now req b task app1 app' hs out sleep c deadline)
  then show ?case using serve_stale(2) proceed_get spawned_get by fastforce
next
  case (send req to payload ch app x parts body app')
  then show ?case using depart_sent by fastforce
qed (auto dest: respond_get split: option.split)

interpretation stale_gets: world_invariant L Y mb ttl "\<lambda>app hs out. list_all stale_for_get hs" for L Y mb ttl
  by unfold_locales (auto dest: handler_step_get)

section \<open>Invalidation\<close>

lemma lookup_after_invalidate:
  assumes "moka_sound ttl M"
  shows "lookup M (invalidate s primary) now primary request oldest = Inr None"
proof -
  have "index_get M (st_index (invalidate s primary)) now primary = None"
    using assms by (cases "index_get M (st_index (invalidate s primary)) now primary")
      (auto simp: invalidate_def dest!: index_getD)
  then show ?thesis by (simp add: lookup_def)
qed

lemma policy_unsafe: "is_safe_documented L \<Longrightarrow> \<not> is_safe L (rq_method req) \<Longrightarrow> \<not> may_store (policy_of L req)"
  by (auto simp: policy_of_def request_policy_new_def is_safe_documented_def Let_def)

lemma client_response_unstored: "ap_cache (snd (client_response L M now h idle None app)) = ap_cache app"
  by (auto simp: client_response_def Let_def settle_def split_beta split: option.split copy_event.split)

lemma store_plan_unsafe:
  assumes "is_safe_documented L" and "\<not> is_safe L (rq_method req)"
    and "is_success L (hd_status h) \<or> is_redirection L (hd_status h)"
  shows "store_plan L wall req key (policy_of L req) h app =
    (None, app\<lparr>ap_cache := invalidate (ap_cache app) key\<rparr>)"
proof -
  have "storable L wall (policy_of L req) (rq_headers req) (hd_status h) (hd_fields h) = None"
    using policy_unsafe [OF assms(1,2)] by (simp add: storable_def)
  then show ?thesis using assms(2,3) by (simp add: store_plan_def Let_def)
qed

text \<open>
  C15. A successful unsafe request makes what is stored for its target URI unusable (RFC 9111 section
  4.4): when the origin answers a request whose method is not GET, HEAD, OPTIONS or TRACE with a 2xx
  or 3xx status, the store returns nothing for the request's cache key from then on, whatever
  request asks, until something is stored again.\<close>

theorem unsafe_success_invalidates:
  assumes "world_reach L Y mb ttl w" and "http_date_documented L" and "is_safe_documented L"
    and "status_classes_documented L" and "hyper_documented Y" and "AtOrigin x \<in> set (w_handlers w)"
    and "rq_method (xc_req x) \<notin> {''GET'', ''HEAD'', ''OPTIONS'', ''TRACE''}"
    and "200 \<le> ur_status r" and "ur_status r < 400"
    and "arrive L Y M wall now x (Responded r took) (w_app w) = Inr (response, app')"
    and "moka_sound ttl M'"
  shows "lookup M' (ap_cache app') later (cache_key_of L (xc_req x)) request oldest = Inr None"
proof -
  obtain H where "world_inv L mb ttl H w" using world_reach_inv [OF assms(1,2)] by blast
  then have ok: "handler_ok L H (AtOrigin x)"
    using assms(6) unfolding world_inv_def list_all_iff by blast
  have stale: "xc_stale x = None"
    using stale_gets.reachable [OF assms(1)] assms(6,7) by (force simp: list_all_iff)
  have status: "hd_status (head_from_upstream Y r) = ur_status r"
    using assms(5,8,9) by (simp add: head_from_upstream_def hyper_documented_def)
  have unsafe: "\<not> is_safe L (rq_method (xc_req x))"
    using assms(3,7) by (simp add: is_safe_documented_def)
  have fine: "is_success L (hd_status (head_from_upstream Y r)) \<or> is_redirection L (hd_status (head_from_upstream Y r))"
    unfolding status using assms(4,8,9) by (cases "ur_status r < 300") (simp_all add: status_classes_documented_def)
  have "ap_cache app' = invalidate (ap_cache (w_app w)) (cache_key_of L (xc_req x))"
    using assms(10) ok client_response_unstored
    by (auto simp: arrive_def answered_def stale store_plan_unsafe [OF assms(3) unsafe fine] Let_def
        dest!: arg_cong [where f = "\<lambda>q. ap_cache (snd q)"])
  then show ?thesis using lookup_after_invalidate [OF assms(11)] by simp
qed

section \<open>A worked run\<close>

text \<open>A POST for the page that the worked run of a GET has stored.\<close>

lemma serve_unsafe:
  "\<not> may_serve policy \<Longrightarrow> serve_from_cache L Y M now req key policy app =
     Inr (Origin \<lparr>to_stale = None, to_flight = None\<rparr>, None, app)"
  by (simp add: serve_from_cache_def from_cache_def join_flight_def may_coalesce_def)

lemma depart_origin:
  "ap_origin app = ap_origin app0 \<Longrightarrow>
   depart L Y req key policy \<lparr>to_stale = None, to_flight = None\<rparr> payload ch app =
     (fst (depart L Y req key policy \<lparr>to_stale = None, to_flight = None\<rparr> payload ch app0), app)"
  by (auto simp: depart_def Let_def drop_flight_def split: option.split sum.split)

lemma arrive_unstale: "xc_stale x = None \<Longrightarrow> \<not> isl (arrive L Y M wall now x (Responded r took) app)"
  by (simp add: arrive_def answered_def Let_def split_beta)

definition example_post :: http_request where
  "example_post = example_request\<lparr>rq_method := ''POST''\<rparr>"

definition post_departure :: departure where
  "post_departure = fst (depart http_example hyper_example example_post (cache_key_of http_example example_post)
     (policy_of http_example example_post) \<lparr>to_stale = None, to_flight = None\<rparr> [] None example_app)"

definition post_exchange :: origin_exchange where
  "post_exchange = (case post_departure of Sent x _ _ \<Rightarrow> x)"

definition post_parts :: request_parts where
  "post_parts = (case post_departure of Sent _ p _ \<Rightarrow> p)"

definition post_world :: world where
  "post_world = \<lparr>w_app = app_three, w_handlers = waiting_handlers @ [AtOrigin post_exchange],
     w_served = [(example_request, first_response)]\<rparr>"

lemma post_world_reach: "example_reach post_world"
proof -
  have "\<not> may_serve (policy_of http_example example_post)" by code_simp
  note serves = serve_unsafe [OF this, of http_example hyper_example "moka_example example_ttl" 4000 example_post
      "cache_key_of http_example example_post" app_three]
  have "post_departure = Sent post_exchange post_parts EmptyBody" "ap_origin app_three = ap_origin example_app"
    by code_simp+
  then have departs: "depart http_example hyper_example example_post (cache_key_of http_example example_post)
      (policy_of http_example example_post) \<lparr>to_stale = None, to_flight = None\<rparr> [] None app_three =
      (Sent post_exchange post_parts EmptyBody, app_three)"
    using depart_origin [of app_three example_app] by (simp add: post_departure_def)
  note r = arrive_one [OF stored_reach, of example_post]
  from handle_one [OF r serve [OF example_environment(3) serves]]
  have r: "example_reach \<lparr>w_app = app_three,
      w_handlers = waiting_handlers @ [Departing example_post \<lparr>to_stale = None, to_flight = None\<rparr>],
      w_served = [(example_request, first_response)]\<rparr>"
    by (simp add: spawned_def)
  from handle_one [OF r send [OF departs]] show ?thesis by (simp add: post_world_def)
qed

definition post_arrival :: "fault + (response \<times> app_state)" where
  "post_arrival = arrive http_example hyper_example (moka_example example_ttl) 0 5000 post_exchange
     (Responded example_answer 1000) app_three"

theorem unsafe_success_invalidates_witness:
  "lookup (moka_example example_ttl) (ap_cache app_three) 6000 request_key [] None \<noteq> Inr None \<and>
   lookup (moka_example example_ttl) (ap_cache (snd (projr post_arrival))) 6000
     (cache_key_of http_example (xc_req post_exchange)) [] None = Inr None"
proof
  show "lookup (moka_example example_ttl) (ap_cache app_three) 6000 request_key [] None \<noteq> Inr None"
    by code_simp
  show "lookup (moka_example example_ttl) (ap_cache (snd (projr post_arrival))) 6000
     (cache_key_of http_example (xc_req post_exchange)) [] None = Inr None"
  proof (rule unsafe_success_invalidates [OF post_world_reach http_example_documented(5,3,4) hyper_example_documented])
    show "AtOrigin post_exchange \<in> set (w_handlers post_world)" by (simp add: post_world_def)
    show "rq_method (xc_req post_exchange) \<notin> {''GET'', ''HEAD'', ''OPTIONS'', ''TRACE''}" by code_simp
    show "200 \<le> ur_status example_answer" "ur_status example_answer < 400" by code_simp+
    have "xc_stale post_exchange = None" by code_simp
    then show "arrive http_example hyper_example (moka_example example_ttl) 0 5000 post_exchange
        (Responded example_answer 1000) (w_app post_world) = Inr (fst (projr post_arrival), snd (projr post_arrival))"
      unfolding post_arrival_def post_world_def world.simps by (intro Inr_pair_eqI arrive_unstale)
    show "moka_sound example_ttl (moka_example example_ttl)" by (rule moka_example_sound)
  qed
qed

end
