(* ===== verification/Proxy_Requests.thy ===== *)
theory Proxy_Requests
  imports Proxy_Unsafe "HOL-Library.Multiset"
begin

text \<open>
  The life of a request in the running proxy. A request is in at most one handler at a time; each
  section that runs for it answers it, or hands it to a handler that is closer to the answer, or
  ends it because its client has gone away. So every request is answered at most once, none is lost,
  and none takes more than four sections.
\<close>

section \<open>Requests in handlers\<close>

fun request_of :: "handler \<Rightarrow> http_request list" where
  "request_of (Arrived req) = [req]"
| "request_of (Waiting req c deadline) = [req]"
| "request_of (Departing req to) = [req]"
| "request_of (AtOrigin x) = [xc_req x]"
| "request_of _ = []"

fun sections_left :: "handler \<Rightarrow> nat" where
  "sections_left (Arrived req) = 4"
| "sections_left (Waiting req c deadline) = 3"
| "sections_left (Departing req to) = 2"
| "sections_left (AtOrigin x) = 1"
| "sections_left _ = 0"

definition requests_in :: "handler list \<Rightarrow> http_request list" where
  "requests_in hs = concat (map request_of hs)"

definition sections_in :: "handler list \<Rightarrow> nat" where
  "sections_in hs = sum_list (map sections_left hs)"

lemma requests_in_simps [simp]:
  "requests_in [] = []" "requests_in (h # hs) = request_of h @ requests_in hs"
  "requests_in (hs @ hs') = requests_in hs @ requests_in hs'"
  by (simp_all add: requests_in_def)

lemma sections_in_simps [simp]:
  "sections_in [] = 0" "sections_in (h # hs) = sections_left h + sections_in hs"
  "sections_in (hs @ hs') = sections_in hs + sections_in hs'"
  by (simp_all add: sections_in_def)

text \<open>What one section does for the request of its handler.\<close>

definition request_moved :: "handler \<Rightarrow> handler list \<Rightarrow> served \<Rightarrow> bool" where
  "request_moved h hs out \<longleftrightarrow>
     (requests_in hs @ map fst out = request_of h \<or> requests_in hs = [] \<and> out = []) \<and>
     length (request_of h) + sections_in hs \<le> sections_left h"

lemma body_handlers_requests [simp]:
  "requests_in (body_handlers b) = []" "sections_in (body_handlers b) = 0"
  by (cases b; simp)+

lemma spawned_requests [simp]: "requests_in (spawned task) = []" "sections_in (spawned task) = 0"
  by (cases task; simp add: spawned_def)+

lemma respond_requests:
  "respond L req r app = (app', hs, out) \<Longrightarrow> requests_in hs = [] \<and> sections_in hs = 0 \<and> map fst out = [req]"
  by (auto simp: respond_def)

lemma proceed_requests:
  "proceed L req b app = (app', hs, out) \<Longrightarrow> requests_in hs @ map fst out = [req] \<and> sections_in hs \<le> 3"
  by (cases b) (auto dest: respond_requests)

lemma handler_step_requests:
  "handler_step L Y ttl app h app' hs out \<Longrightarrow> request_moved h hs out"
proof (induction rule: handler_step.induct)
  case (serve M wall app now req b task app1 app' hs out)
  then show ?case using proceed_requests [OF serve(3)] by (simp add: request_moved_def)
next
  case (woken M wall app now req b task app1 app' hs out sleep c deadline)
  have "sections_in hs \<le> 2" if "\<And>ch deadline. b \<noteq> WaitFor ch deadline"
    using woken(3) that by (cases b) (auto dest: respond_requests)
  moreover have "b \<noteq> WaitFor ch deadline" for ch deadline
    using woken(2) by (auto simp: serve_after_wait_def split: sum.splits prod.splits) (metis cached_or_move(2))
  ultimately show ?case using proceed_requests [OF woken(3)] by (simp add: request_moved_def)
next
  case (refuse req to payload ch app r app1 app' hs out)
  then show ?case using respond_requests [OF refuse(2)] by (simp add: request_moved_def)
next
  case (send req to payload ch app x parts body app')
  then show ?case using depart_sent [OF send] by (simp add: request_moved_def)
next
  case (arrived M wall app now x outcome r app1 app' hs out)
  then show ?case using respond_requests [OF arrived(3)] by (simp add: request_moved_def)
qed (auto simp: request_moved_def split: option.split)

text \<open>A section that neither answers nor hands on its request is a client going away at an await point.\<close>

lemma dropped_request:
  assumes "handler_step L Y ttl app h app' hs out" and "request_of h \<noteq> []" and "requests_in hs = []" and "out = []"
  shows "hs = [] \<and> (app' = app \<or> (\<exists>fl. app' = drop_flight fl app)) \<and> (\<forall>req. h \<noteq> Arrived req)"
  using assms
proof (cases rule: handler_step.cases)
  case (serve M wall now req b task app1 hs)
  then show ?thesis using assms proceed_requests [OF serve(5)] by simp
next
  case (woken M wall now req b task app1 hs sleep c deadline)
  then show ?thesis using assms proceed_requests [OF woken(5)] by simp
next
  case (refuse req to payload ch r app1)
  then show ?thesis using assms respond_requests [OF refuse(3)] by simp
next
  case (arrived M wall now x outcome r app1)
  then show ?thesis using assms respond_requests [OF arrived(4)] by simp
qed auto

section \<open>Runs\<close>

text \<open>A run of the proxy with the requests that arrived, those whose client went away, and the number of
  sections that ran for requests.\<close>

inductive request_run ::
  "http_lib \<Rightarrow> hyper_lib \<Rightarrow> nat \<Rightarrow> duration \<Rightarrow> http_request list \<Rightarrow> http_request list \<Rightarrow> nat \<Rightarrow> world \<Rightarrow> bool"
  for L Y mb ttl where
  run_start: "initial_world mb ttl w \<Longrightarrow> request_run L Y mb ttl [] [] 0 w"
| run_request: "request_run L Y mb ttl arrivals gone n w \<Longrightarrow>
    request_run L Y mb ttl (arrivals @ [req]) gone n (w\<lparr>w_handlers := w_handlers w @ [Arrived req]\<rparr>)"
| run_section: "request_run L Y mb ttl arrivals gone n w \<Longrightarrow> w_handlers w = hs1 @ h # hs2 \<Longrightarrow>
    handler_step L Y ttl (w_app w) h app' hs out \<Longrightarrow>
    request_run L Y mb ttl arrivals (gone @ (if requests_in hs = [] \<and> out = [] then request_of h else []))
      (n + length (request_of h)) \<lparr>w_app = app', w_handlers = hs1 @ hs @ hs2, w_served = w_served w @ out\<rparr>"
| run_other: "request_run L Y mb ttl arrivals gone n w \<Longrightarrow> other_step (w_app w) app' \<Longrightarrow>
    request_run L Y mb ttl arrivals gone n (w\<lparr>w_app := app'\<rparr>)"

lemma other_step_world: "other_step (w_app w) app' \<Longrightarrow> world_step L Y ttl w (w\<lparr>w_app := app'\<rparr>)"
  by (elim other_stepE) (simp_all add: world_step.intros)

lemma request_run_reach: "request_run L Y mb ttl arrivals gone n w \<Longrightarrow> world_reach L Y mb ttl w"
proof (induction rule: request_run.induct)
  case (run_section arrivals gone n w hs1 h hs2 app' hs out)
  show ?case by (rule world_reach.step [OF run_section.IH world_step.handle [OF run_section.hyps(2,3)]])
next
  case (run_request arrivals gone n w req)
  show ?case by (rule world_reach.step [OF run_request.IH world_step.request])
next
  case (run_other arrivals gone n w app')
  show ?case by (rule world_reach.step [OF run_other.IH other_step_world [OF run_other.hyps(2)]])
qed (rule world_reach.start)

lemma world_reach_run: "world_reach L Y mb ttl w \<Longrightarrow> \<exists>arrivals gone n. request_run L Y mb ttl arrivals gone n w"
proof (induction rule: world_reach.induct)
  case (start w)
  then show ?case by (blast intro: run_start)
next
  case (step w w')
  then obtain arrivals gone n where run: "request_run L Y mb ttl arrivals gone n w" by blast
  from step(2) show ?case
  proof cases
    case (request req)
    then show ?thesis using run_request [OF run] by blast
  next
    case (handle hs1 h hs2 app' hs out)
    then show ?thesis using run_section [OF run] by blast
  qed (use run_other [OF run] other_step.intros in blast)+
qed


text \<open>The worked run up to the origin, where its client goes away.\<close>

definition given_up_world :: world where
  "given_up_world = \<lparr>w_app = drop_flight (xc_flight first_exchange) app_two, w_handlers = [], w_served = []\<rparr>"

lemma given_up_run:
  "request_run http_example hyper_example 1 example_ttl [example_request] [example_request] 3 given_up_world"
proof -
  let ?run = "request_run http_example hyper_example 1 example_ttl"
  have "?run [] [] 0 \<lparr>w_app = example_app, w_handlers = [], w_served = []\<rparr>"
    by (rule run_start) (simp add: initial_world_def example_app_def)
  from run_request [OF this, of example_request]
  have r: "?run [example_request] [] 0 \<lparr>w_app = example_app, w_handlers = [Arrived example_request], w_served = []\<rparr>"
    by simp
  have "proceed http_example example_request (Origin first_to) app_one = (app_one, [Departing example_request first_to], [])"
    by simp
  from run_section [OF r, of "[]" "Arrived example_request" "[]", simplified,
      OF serve [OF example_environment(1) first_serve_eq [unfolded first_serve_def] this]]
  have r: "?run [example_request] [] 1 \<lparr>w_app = app_one, w_handlers = [Departing example_request first_to], w_served = []\<rparr>"
    by (simp add: spawned_def)
  from run_section [OF r, of "[]" "Departing example_request first_to" "[]", simplified,
      OF send [OF first_departure_eq [unfolded first_departure_def]]]
  have r: "?run [example_request] [] 2 \<lparr>w_app = app_two, w_handlers = [AtOrigin first_exchange], w_served = []\<rparr>"
    by (simp add: numeral_2_eq_2)
  have x: "xc_req first_exchange = example_request" by code_simp
  from run_section [OF r, of "[]" "AtOrigin first_exchange" "[]", simplified, OF cancel_at_origin]
  show ?thesis by (simp add: given_up_world_def x eval_nat_numeral)
qed


end
