(* ===== verification/Proxy_Refresh.thy ===== *)
theory Proxy_Refresh
  imports Proxy_Moves World_Invariant Proxy_Props
begin

text \<open>
  The background revalidations of the running proxy: the keys marked as being refreshed in the store
  are exactly those whose guard a running task holds, one task per key.
\<close>

section \<open>The marks in the store\<close>

abbreviation in_refresh :: "app_state \<Rightarrow> response_key set" where
  "in_refresh app \<equiv> st_refreshing (ap_cache app)"

lemma in_refresh_store [simp]:
  "st_refreshing (snd (insert_response M s now primary vary policy status headers body)) = st_refreshing s"
  "st_refreshing (snd (unstored_response s now policy status headers body)) = st_refreshing s"
  "st_refreshing (invalidate s p) = st_refreshing s"
  "st_refreshing (drop_refresh_guard s k) = st_refreshing s - {k}"
  "st_refreshing (snd (insert_asset s now path content etag modified)) = st_refreshing s"
  "st_refreshing (snd (entry_count M s now)) = st_refreshing s"
  "st_refreshing (snd (weighted_size M s now)) = st_refreshing s"
  by (auto simp: insert_response_def unstored_response_def invalidate_def drop_refresh_guard_def
      insert_asset_def entry_count_def weighted_size_def Let_def split_beta)

lemma in_refresh_freshen [simp]:
  "st_refreshing (snd (freshen L M s wall now e policy request update age)) = st_refreshing s"
proof -
  have ins: "insert_response M s now primary vk sp status headers body = (r, s') \<Longrightarrow>
      st_refreshing s' = st_refreshing s" for primary vk sp status headers body r s'
    using in_refresh_store(1) by (metis snd_conv)
  show ?thesis by (auto simp: freshen_def Let_def split: option.split prod.split dest: ins)
qed

text \<open>A mark is set by taking a guard that was free, and removed by dropping it.\<close>

inductive marks :: "response_key set \<Rightarrow> guard_event list \<Rightarrow> response_key set \<Rightarrow> bool" for S where
  marks_none: "marks S [] S"
| marks_take: "marks S evs S' \<Longrightarrow> k \<notin> S' \<Longrightarrow> marks S (evs @ [Take k]) (insert k S')"
| marks_drop: "marks S evs S' \<Longrightarrow> marks S (evs @ [Drop k]) (S' - {k})"

lemma app_moves_marks: "app_moves app evs app' \<Longrightarrow> marks (in_refresh app) evs (in_refresh app')"
proof (induction rule: app_moves.induct)
  case (moves_take evs app1 e k s)
  then have "k \<notin> in_refresh app1" "st_refreshing s = insert k (in_refresh app1)"
    by (auto simp: start_refresh_def split: if_splits)
  then show ?case using marks_take [OF moves_take.IH] by simp
next
  case (moves_drop evs app1 k)
  then show ?case using marks_drop [OF moves_drop.IH] by simp
qed (simp_all add: marks_none)

inductive_cases marks_NilE: "marks S [] S'"
inductive_cases marks_snocE: "marks S (evs @ [ev]) S'"

lemma marks_simps:
  "marks S [] S' \<longleftrightarrow> S' = S"
  "marks S [Take k] S' \<longleftrightarrow> k \<notin> S \<and> S' = insert k S"
  "marks S [Drop k] S' \<longleftrightarrow> S' = S - {k}"
  "marks S [Take k, Drop k] S' \<longleftrightarrow> k \<notin> S \<and> S' = S"
proof -
  show none: "marks S [] S' \<longleftrightarrow> S' = S" for S'
    by (auto intro: marks_none elim: marks_NilE)
  have snoc_take: "marks S (evs @ [Take k]) S' \<longleftrightarrow> (\<exists>S1. marks S evs S1 \<and> k \<notin> S1 \<and> S' = insert k S1)" for evs S'
    by (auto intro: marks_take elim: marks_snocE)
  have snoc_drop: "marks S (evs @ [Drop k]) S' \<longleftrightarrow> (\<exists>S1. marks S evs S1 \<and> S' = S1 - {k})" for evs S'
    by (auto intro: marks_drop elim: marks_snocE)
  show "marks S [Take k] S' \<longleftrightarrow> k \<notin> S \<and> S' = insert k S"
    using snoc_take [of "[]"] none by auto
  show "marks S [Drop k] S' \<longleftrightarrow> S' = S - {k}"
    using snoc_drop [of "[]"] none by auto
  show "marks S [Take k, Drop k] S' \<longleftrightarrow> k \<notin> S \<and> S' = S"
    using snoc_drop [of "[Take k]"] snoc_take [of "[]"] none by auto
qed

section \<open>The invariant\<close>

definition refresh_inv :: "app_state \<Rightarrow> handler list \<Rightarrow> served \<Rightarrow> bool" where
  "refresh_inv app hs out \<longleftrightarrow> distinct (refresh_guards hs) \<and> set (refresh_guards hs) = in_refresh app"

lemma in_refresh_counted [simp]: "in_refresh (answer_counted L out app) = in_refresh app"
  by (induction out arbitrary: app) (auto simp: answer_counted_def)

lemma handler_step_marks:
  assumes "handler_step L Y ttl app h app' hs out"
    and "distinct (G @ refresh_guards_of h @ G')" and "set (G @ refresh_guards_of h @ G') = in_refresh app"
  shows "distinct (G @ refresh_guards hs @ G') \<and> set (G @ refresh_guards hs @ G') = in_refresh app'"
proof -
  obtain app1 evs where moves: "app_moves app evs app1"
    and evs: "guard_events (refresh_guards_of h) evs (refresh_guards hs)" and app': "app' = answer_counted L out app1"
    using handler_step_moves [OF assms(1)] unfolding moves_with_def by blast
  have "distinct (G @ G1 @ G') \<and> set (G @ G1 @ G') = S1"
    if "marks S evs S1" "guard_events G0 evs G1" "distinct (G @ G0 @ G')" "set (G @ G0 @ G') = S" for S S1 G0 G1
    using that unfolding guard_events_def by (elim disjE exE conjE) (auto simp: marks_simps)
  from this [OF app_moves_marks [OF moves] evs assms(2,3)] show ?thesis by (simp add: app')
qed

interpretation refreshes: world_invariant L Y mb ttl refresh_inv for L Y mb ttl
proof
  show "refresh_inv app [] []" if "ap_cache app = store_new mb ttl" for app
    using that by (simp add: refresh_inv_def store_new_def Let_def)
  show "refresh_inv app (hs @ [Arrived req]) out" if "refresh_inv app hs out" for app hs out req
    using that by (simp add: refresh_inv_def)
  show "refresh_inv app' (hs1 @ hs @ hs2) (out @ out')"
    if "refresh_inv app (hs1 @ h # hs2) out" "handler_step L Y ttl app h app' hs out'" for app hs1 h hs2 out app' hs out'
    using that(1) handler_step_marks [OF that(2), of "refresh_guards hs1" "refresh_guards hs2"]
    unfolding refresh_inv_def by simp
  show "refresh_inv app' hs out" if "refresh_inv app hs out" "other_step app app'" for app hs out app'
    using that(2,1) by cases (simp_all add: refresh_inv_def)
qed

text \<open>
  C13. In every reachable state of the proxy, the stored responses marked as being revalidated in the
  background are exactly those for which a task is running: no mark outlives its task, so that a
  stale response can always be revalidated again, and no stored response has two tasks at a time.
  \<open>start_refresh\<close> hands out a guard exactly when no task is running for the response.\<close>

theorem refresh_guards_exact:
  assumes "world_reach L Y mb ttl w"
  shows "st_refreshing (ap_cache (w_app w)) = set (refresh_guards (w_handlers w)) \<and>
    distinct (refresh_guards (w_handlers w)) \<and>
    (fst (start_refresh (ap_cache (w_app w)) e) =
       (if se_key e \<in> set (refresh_guards (w_handlers w)) then None else Some (se_key e)))"
  using refreshes.reachable [OF assms] by (simp add: refresh_inv_def start_refresh_def)

theorem refresh_guards_exact_witness:
  "st_refreshing (ap_cache (w_app hit_world)) = set (refresh_guards (w_handlers hit_world)) \<and>
    distinct (refresh_guards (w_handlers hit_world)) \<and>
    (fst (start_refresh (ap_cache (w_app hit_world)) example_stale) =
       (if se_key example_stale \<in> set (refresh_guards (w_handlers hit_world)) then None
        else Some (se_key example_stale)))"
  by (rule refresh_guards_exact [OF hit_world_reach])

end
