(* ===== verification/Proxy_Stored.thy ===== *)
theory Proxy_Stored
  imports World_Invariant Proxy_Props
begin

text \<open>
  The type of what the cache holds: a stored response has a status that may be stored and a body
  within the size limit, and carries nothing that belongs to one connection or to one client. The
  section lemmas follow a response from the origin's answer through the handlers into the store and
  out again; the world invariant collects them.
\<close>

section \<open>Well-formed responses\<close>

definition end_to_end_fields :: "fields \<Rightarrow> bool" where
  "end_to_end_fields hs \<longleftrightarrow> list_all (\<lambda>(name, _). \<not> List.member HOP_BY_HOP name \<and> name \<noteq> ''content-length'' \<and>
     name \<noteq> ''age'' \<and> name \<noteq> CACHE_STATUS) hs"

definition shared_fields :: "fields \<Rightarrow> bool" where
  "shared_fields hs \<longleftrightarrow> end_to_end_fields hs \<and> \<not> contains_key hs ''set-cookie''"

definition stored_wf :: "nat \<Rightarrow> stored_response \<Rightarrow> bool" where
  "stored_wf limit r \<longleftrightarrow>
     List.member CACHEABLE_BY_DEFAULT (sr_status r) \<and> shared_fields (sr_headers r) \<and> length (sr_body r) \<le> limit"

definition store_wf :: "nat \<Rightarrow> store \<Rightarrow> bool" where
  "store_wf limit s \<longleftrightarrow> st_max_entry s = limit \<and> (\<forall>t k r. stored_in s t k r \<longrightarrow> stored_wf limit r)"

text \<open>A response that the cache has answered with: one \<open>Age\<close>, one label, the stored body.\<close>

definition cached_wf :: "nat \<Rightarrow> response \<Rightarrow> bool" where
  "cached_wf limit r \<longleftrightarrow>
     List.member CACHEABLE_BY_DEFAULT (rs_status r) \<and>
     list_all (\<lambda>name. \<not> contains_key (rs_headers r) name) (''content-length'' # HOP_BY_HOP) \<and>
     length (get_all (rs_headers r) ''age'') = 1 \<and> length (get_all (rs_headers r) CACHE_STATUS) = 1 \<and>
     (cache_label r = Some REVALIDATED \<or> \<not> contains_key (rs_headers r) ''set-cookie'') \<and>
     (case rs_body r of FullBody b \<Rightarrow> length b \<le> limit | _ \<Rightarrow> False)"

lemma end_to_end_stored: "end_to_end_fields (stored_fields (forwardable_fields L h))"
  by (auto simp: end_to_end_fields_def stored_fields_def forwardable_fields_def is_end_to_end_def Let_def list_all_iff)

lemma end_to_end_updated:
  "end_to_end_fields stored \<Longrightarrow> end_to_end_fields update \<Longrightarrow> end_to_end_fields (updated_fields stored update)"
  by (auto simp: end_to_end_fields_def updated_fields_def list_all_iff)

lemma end_to_end_get_all:
  "end_to_end_fields hs \<Longrightarrow> List.member (''content-length'' # ''age'' # CACHE_STATUS # HOP_BY_HOP) n \<Longrightarrow> get_all hs n = []"
  by (auto simp: end_to_end_fields_def list_all_iff get_all_empty_iff)

lemma shared_stored_fields:
  "\<not> contains_key (hd_fields h) ''set-cookie'' \<Longrightarrow> shared_fields (stored_fields (forwardable_fields L h))"
  by (simp add: shared_fields_def end_to_end_stored contains_key_get_all get_all_stored_fields get_all_forwardable)

lemma storable_shared:
  "storable L wall policy request status response = Some p \<Longrightarrow>
     List.member CACHEABLE_BY_DEFAULT status \<and> \<not> contains_key response ''set-cookie''"
  by (cases p) (auto simp: storable_Some storable_response_directives_Some)

lemma cached_response_wf:
  assumes "cached_response stored now label = Inr r" and "List.member CACHE_LABELS label"
    and "List.member CACHEABLE_BY_DEFAULT (sr_status stored)" and "end_to_end_fields (sr_headers stored)"
    and "length (sr_body stored) \<le> limit" and "label = REVALIDATED \<or> \<not> contains_key (sr_headers stored) ''set-cookie''"
  shows "cached_wf limit r"
proof -
  obtain age where r: "r = \<lparr>rs_status = sr_status stored, rs_headers = cached_headers stored age label,
      rs_body = FullBody (sr_body stored)\<rparr>"
    using assms(1) by (auto simp: cached_response_def split: sum.splits)
  have fields: "get_all (cached_headers stored age label) n =
      (if n = CACHE_STATUS then [label] else if n = ''age'' then [to_decimal (as_secs age)]
       else get_all (sr_headers stored) n)" for n
    by (simp add: cached_headers_def)
  have "\<not> contains_key (cached_headers stored age label) n" if "List.member (''content-length'' # HOP_BY_HOP) n" for n
    using that end_to_end_get_all [OF assms(4), of n]
    by (auto simp: contains_key_get_all fields HOP_BY_HOP_def CACHE_STATUS_def)
  moreover have "cache_label r = Some REVALIDATED \<or> \<not> contains_key (cached_headers stored age label) ''set-cookie''"
    using assms(6) cache_label_cached [OF assms(1,2)] by (auto simp: contains_key_get_all fields CACHE_STATUS_def)
  ultimately show ?thesis
    using assms(3,5) by (auto simp: cached_wf_def r fields list_all_iff CACHE_STATUS_def)
qed

lemma cached_stored_wf:
  assumes "cached_response stored now label = Inr r" and "stored_wf limit stored" and "List.member CACHE_LABELS label"
  shows "cached_wf limit r"
  using cached_response_wf [OF assms(1,3)] assms(2) by (simp add: stored_wf_def shared_fields_def)

section \<open>The store\<close>

lemma store_wf_quiet:
  assumes "store_wf limit s"
  shows "store_wf limit (invalidate s p)" and "store_wf limit (snd (start_refresh s e))"
    and "store_wf limit (drop_refresh_guard s k)"
    and "store_wf limit (snd (insert_asset s now path content etag modified))"
    and "store_wf limit (snd (entry_count M s now))" and "store_wf limit (snd (weighted_size M s now))"
    and "store_wf limit (snd (unstored_response s now sp status headers body))"
    and "store_wf limit (s\<lparr>st_entries := Invalidated c # st_entries s\<rparr>)"
  using assms
  by (auto simp: store_wf_def stored_in_def invalidate_def start_refresh_def drop_refresh_guard_def insert_asset_def
      entry_count_def weighted_size_def unstored_response_def Let_def)

lemma insert_response_wf:
  assumes "store_wf limit s" and "List.member CACHEABLE_BY_DEFAULT status" and "shared_fields headers"
  shows "store_wf limit (snd (insert_response M s now key vary sp status headers body))"
  using assms by (auto simp: store_wf_def stored_in_def insert_response_eq Let_def stored_wf_def new_response_simps)

lemma freshen_wf:
  assumes s: "store_wf limit s" and e: "stored_wf limit (se_response e)" and update: "end_to_end_fields update"
  shows "store_wf limit (snd (freshen L M s wall now e policy request update age))"
proof (cases "storable L wall policy request (sr_status (se_response e)) (freshen_map e update age)")
  case None
  then show ?thesis using s by (auto simp: freshen_def Let_def intro!: store_wf_quiet)
next
  case (Some p)
  obtain sp vary where p: "p = (sp, vary)" by force
  let ?headers = "updated_fields (sr_headers (se_response e)) update"
  have ok: "List.member CACHEABLE_BY_DEFAULT (sr_status (se_response e))" "\<not> contains_key (freshen_map e update age) ''set-cookie''"
    using storable_shared [OF Some] by auto
  then have "shared_fields ?headers"
    using e end_to_end_updated [OF _ update]
    by (auto simp: shared_fields_def stored_wf_def freshen_map_def Let_def contains_key_get_all split: option.splits)
  from insert_response_wf [OF s ok(1) this] show ?thesis
    using s Some p
    by (auto simp: freshen_def Let_def intro!: store_wf_quiet split: option.split prod.split) (metis snd_conv)+
qed

lemma lookup_wf:
  assumes "store_wf limit s" and "moka_sound ttl M" and "lookup M s now key request oldest = Inr (Some res)"
  shows "stored_wf limit (result_response res)"
  using lookup_stored [OF assms(2,3)] assms(1) unfolding store_wf_def by metis

section \<open>The handlers\<close>

definition entry_wf :: "nat \<Rightarrow> stale_entry option \<Rightarrow> bool" where
  "entry_wf limit e \<longleftrightarrow> pred_option (\<lambda>e. stored_wf limit (se_response e)) e"

definition finish_wf :: "(storing \<times> status_code \<times> fields) option \<Rightarrow> bool" where
  "finish_wf fin \<longleftrightarrow>
     pred_option (\<lambda>(_, status, headers). List.member CACHEABLE_BY_DEFAULT status \<and> shared_fields headers) fin"

fun handler_wf :: "nat \<Rightarrow> handler \<Rightarrow> bool" where
  "handler_wf limit (Departing req to) \<longleftrightarrow> entry_wf limit (to_stale to)"
| "handler_wf limit (AtOrigin x) \<longleftrightarrow> entry_wf limit (xc_stale x)"
| "handler_wf limit (Streaming sb) \<longleftrightarrow> finish_wf (sb_finish sb)"
| "handler_wf limit (Refreshing t) \<longleftrightarrow> stored_wf limit (se_response (bt_entry t))"
| "handler_wf limit (Collecting cl) \<longleftrightarrow> finish_wf (Some (cl_storing cl, cl_status cl, cl_headers cl))"
| "handler_wf limit _ \<longleftrightarrow> True"

definition served_wf :: "nat \<Rightarrow> response \<Rightarrow> bool" where
  "served_wf limit r \<longleftrightarrow> (from_the_cache r \<longrightarrow> cached_wf limit r)"

abbreviation cache_wf :: "nat \<Rightarrow> app_state \<Rightarrow> bool" where
  "cache_wf limit app \<equiv> store_wf limit (ap_cache app)"

lemma settle_wf: "cache_wf limit app \<Longrightarrow> finish_wf fin \<Longrightarrow> cache_wf limit (settle M now fin ev app)"
  by (auto simp: settle_def finish_storing_def finish_wf_def intro: insert_response_wf
      split: option.split copy_event.split)

lemma store_plan_wf:
  assumes "store_plan L wall req key policy h app = (store, app')" and "cache_wf limit app"
  shows "cache_wf limit app'" and "finish_wf (map_option (\<lambda>sg. (sg, hd_status h, stored_fields (forwardable_fields L h))) store)"
  using assms store_wf_quiet(1) [OF assms(2)]
  by (auto simp: store_plan_def Let_def finish_wf_def split: option.splits if_splits
      dest!: storable_shared intro: shared_stored_fields)

lemma client_response_wf:
  assumes "client_response L M now h idle store app = (r, app')" and "cache_wf limit app"
    and "finish_wf (map_option (\<lambda>sg. (sg, hd_status h, stored_fields (forwardable_fields L h))) store)"
  shows "cache_wf limit app' \<and> list_all (handler_wf limit) (body_handlers (rs_body r)) \<and> \<not> from_the_cache r"
proof -
  have kept: "finish_wf (map_option (\<lambda>sg. (sg, hd_status h, stored_fields (forwardable_fields L h)))
      (Option.bind store (\<lambda>sg. if c sg then Some sg else None)))" for c
    using assms(3) by (cases store) (auto simp: finish_wf_def)
  show ?thesis
    using assms kept not_from_the_cache(1)
    by (auto simp: client_response_def Let_def intro!: settle_wf split: prod.splits option.splits)
qed

lemma refresh_in_background_wf:
  assumes "refresh_in_background L Y req key e app = (task, app')" and "cache_wf limit app"
    and "stored_wf limit (se_response e)"
  shows "cache_wf limit app' \<and> list_all (handler_wf limit) (spawned task)"
proof -
  obtain g s where g: "start_refresh (ap_cache app) e = (g, s)" by force
  have s: "store_wf limit s" using store_wf_quiet(2) [OF assms(2), of e] g by simp
  show ?thesis
    using assms(1,3) g s store_wf_quiet(3) [OF s]
    by (auto simp: refresh_in_background_def Let_def spawned_def split: option.splits prod.splits)
qed

fun offer_wf :: "nat \<Rightarrow> cached \<Rightarrow> bool" where
  "offer_wf limit (CachedAnswer r) \<longleftrightarrow> cached_wf limit r"
| "offer_wf limit (CachedStale e) \<longleftrightarrow> stored_wf limit (se_response e)"
| "offer_wf limit CachedNothing \<longleftrightarrow> True"

fun before_wf :: "nat \<Rightarrow> before \<Rightarrow> bool" where
  "before_wf limit (Answer r) \<longleftrightarrow> cached_wf limit r"
| "before_wf limit (Origin to) \<longleftrightarrow> entry_wf limit (to_stale to)"
| "before_wf limit (WaitFor c deadline) \<longleftrightarrow> True"

lemma cache_labels [simp]:
  "use_status use \<in> set CACHE_LABELS" "STALE \<in> set CACHE_LABELS" "REVALIDATED \<in> set CACHE_LABELS"
  by (cases use) (simp_all add: CACHE_LABELS_def)

lemma from_cache_wf:
  assumes "from_cache L Y M now req key policy use app = Inr (c, task, app')"
    and "cache_wf limit app" and "moka_sound ttl M"
  shows "cache_wf limit app' \<and> list_all (handler_wf limit) (spawned task) \<and> offer_wf limit c"
  using assms(1)
proof (cases rule: from_cache_cases)
  case nothing_found
  then show ?thesis using assms(2) by (simp add: spawned_def)
next
  case (fresh_found stored r)
  then show ?thesis
    using assms(2) cached_stored_wf [OF fresh_found(3)] lookup_wf [OF assms(2,3) fresh_found(2)]
    by (simp add: spawned_def)
next
  case (stale_found e)
  have e: "stored_wf limit (se_response e)" using lookup_wf [OF assms(2,3) stale_found(3)] by simp
  show ?thesis
    using stale_found(4) assms(2) e refresh_in_background_wf [OF _ assms(2) e]
    by (auto simp: while_revalidating_def spawned_def dest: cached_stored_wf split: if_splits sum.splits)
qed

lemma cached_or_wf:
  "cached_or c fl app = (b, app') \<Longrightarrow> cache_wf limit app \<Longrightarrow> offer_wf limit c \<Longrightarrow>
     cache_wf limit app' \<and> before_wf limit b"
  by (cases c) (auto simp: entry_wf_def)

lemma serve_after_wait_wf:
  assumes "serve_after_wait L Y M now req key policy app = Inr (b, task, app')" and "cache_wf limit app" and "moka_sound ttl M"
  shows "cache_wf limit app' \<and> list_all (handler_wf limit) (spawned task) \<and> before_wf limit b"
proof -
  obtain c app2 where c: "from_cache L Y M now req key policy Coalesced app = Inr (c, task, app2)"
    "cached_or c None app2 = (b, app')"
    using assms(1) by (auto simp: serve_after_wait_def split: sum.splits prod.splits)
  then show ?thesis using from_cache_wf [OF c(1) assms(2,3)] cached_or_wf [OF c(2)] by auto
qed

lemma serve_from_cache_wf:
  assumes "serve_from_cache L Y M now req key policy app = Inr (b, task, app')" and "cache_wf limit app" and "moka_sound ttl M"
  shows "cache_wf limit app' \<and> list_all (handler_wf limit) (spawned task) \<and> before_wf limit b"
  using assms(1)
proof (cases rule: serve_from_cache_cases)
  case (answer c app2 r)
  then show ?thesis using from_cache_wf [OF answer(1) assms(2,3)] cached_or_wf [OF answer(2)] by auto
next
  case (alone c app2 to app3)
  then show ?thesis
    using from_cache_wf [OF alone(1) assms(2,3)] cached_or_wf [OF alone(2)] join_flight_cache [OF alone(3)] by auto
next
  case (follow c app2 to app3 ch)
  then show ?thesis
    using from_cache_wf [OF follow(1) assms(2,3)] cached_or_wf [OF follow(2)] join_flight_cache [OF follow(3)] by auto
next
  case (lead c task1 app2 to app3 g app4 c' app5)
  have "cache_wf limit app4"
    using from_cache_wf [OF lead(1) assms(2,3)] cached_or_wf [OF lead(2)] join_flight_cache [OF lead(3)] by auto
  then show ?thesis using from_cache_wf [OF lead(4) _ assms(3)] cached_or_wf [OF lead(5)] by auto
qed

lemma depart_wf:
  "depart L Y req key policy to payload ch app = (d, app') \<Longrightarrow> ap_cache app' = ap_cache app \<and>
     (case d of Refused r \<Rightarrow> \<exists>status. r = error_response L status | Sent x p b \<Rightarrow> xc_stale x = to_stale to)"
  unfolding depart_def Let_def by (auto split: option.splits sum.splits; blast)

text \<open>A response on its way out: the state is in order, and so are its body and what is served.\<close>

definition reply_wf :: "nat \<Rightarrow> response \<Rightarrow> app_state \<Rightarrow> bool" where
  "reply_wf limit r app \<longleftrightarrow>
     cache_wf limit app \<and> list_all (handler_wf limit) (body_handlers (rs_body r)) \<and> served_wf limit r"

lemma cached_reply_wf: "cached_wf limit r \<Longrightarrow> cache_wf limit app \<Longrightarrow> reply_wf limit r app"
  by (cases "rs_body r") (auto simp: reply_wf_def served_wf_def cached_wf_def)

lemma error_reply_wf: "cache_wf limit app \<Longrightarrow> reply_wf limit (error_response L status) app"
  using not_from_the_cache(2) by (auto simp: reply_wf_def served_wf_def error_response_def)

lemma revalidated_wf:
  assumes "revalidated L M wall now x e h app = Inr (r, app')" and "cache_wf limit app" and e: "stored_wf limit (se_response e)"
  shows "reply_wf limit r app'"
proof -
  let ?u = "stored_fields (forwardable_fields L h)"
  obtain fresh s where f: "freshen L M (ap_cache app) wall now e (xc_policy x) (rq_headers (xc_req x)) ?u
      (get (hd_fields h) ''age'') = (fresh, s)" by force
  have r: "cached_response fresh now REVALIDATED = Inr r" "ap_cache app' = s"
    using assms(1) f by (auto simp: revalidated_def split: sum.splits)
  have "end_to_end_fields (sr_headers fresh)"
    using e end_to_end_updated [OF _ end_to_end_stored] freshen_result(3) [OF f]
    by (auto simp: stored_wf_def shared_fields_def)
  then have "cached_wf limit r"
    using cached_response_wf [OF r(1)] e freshen_result(1,2) [OF f] by (auto simp: stored_wf_def)
  moreover have "store_wf limit s" using freshen_wf [OF assms(2) e end_to_end_stored] f by (metis snd_conv)
  ultimately show ?thesis using r(2) by (intro cached_reply_wf) auto
qed

lemma answered_wf:
  assumes "answered L Y M wall now x u app = Inr (r, app')" and "cache_wf limit app" and x: "entry_wf limit (xc_stale x)"
  shows "reply_wf limit r app'"
  using assms(1)
proof (cases rule: answered_cases)
  case (stale_served e)
  then show ?thesis
    using x assms(2) cached_stored_wf [of "se_response e" now STALE r limit] by (intro cached_reply_wf) (auto simp: entry_wf_def)
next
  case (freshened e)
  then show ?thesis using revalidated_wf [OF freshened(2) assms(2)] x by (simp add: entry_wf_def)
next
  case (forwarded store app2)
  note plan = store_plan_wf [OF forwarded(1) assms(2)]
  have app3: "cache_wf limit (forwarded_app x store app2)" using plan(1) by (simp add: forwarded_app_def)
  have "finish_wf (map_option (\<lambda>sg. (sg, hd_status (head_from_upstream Y u),
      stored_fields (forwardable_fields L (head_from_upstream Y u)))) (held_storing x store))"
    using plan(2) by (cases store) (simp_all add: held_storing_def finish_wf_def)
  from client_response_wf [OF forwarded(2) app3 this] show ?thesis by (simp add: reply_wf_def served_wf_def)
qed

lemma failed_wf:
  "failed L now x status app = Inr (r, app') \<Longrightarrow> cache_wf limit app \<Longrightarrow> entry_wf limit (xc_stale x) \<Longrightarrow> reply_wf limit r app'"
  by (auto simp: failed_def entry_wf_def intro!: cached_reply_wf error_reply_wf dest: cached_stored_wf
      split: option.splits if_splits sum.splits)

lemma arrive_wf:
  "arrive L Y M wall now x outcome app = Inr (r, app') \<Longrightarrow> cache_wf limit app \<Longrightarrow> entry_wf limit (xc_stale x) \<Longrightarrow>
     reply_wf limit r app'"
  by (cases outcome) (auto simp: arrive_def intro: answered_wf failed_wf)

lemma poll_streamed_wf:
  "poll_streamed sleep M now sb inner app = Inr (item, sb', app') \<Longrightarrow> cache_wf limit app \<Longrightarrow> finish_wf (sb_finish sb) \<Longrightarrow>
     cache_wf limit app' \<and> finish_wf (sb_finish sb')"
  by (auto simp: poll_streamed_def Let_def intro!: settle_wf split: sum.splits prod.splits)

lemma background_arrive_wf:
  assumes "background_arrive L Y M wall now t outcome app = (cl, app')" and "cache_wf limit app"
    and t: "stored_wf limit (se_response (bt_entry t))"
  shows "cache_wf limit app' \<and> (\<forall>c. cl = Some c \<longrightarrow> handler_wf limit (Collecting c))"
proof (cases outcome)
  case (Responded u took)
  let ?app = "send_to_origin Background outcome app" and ?h = "head_from_upstream Y u"
  let ?policy = "request_policy_new L (rq_method (bt_req t)) (rq_headers (bt_req t))"
  have app: "cache_wf limit ?app" using assms(2) by simp
  obtain store app2 where plan: "store_plan L wall (bt_req t) (bt_key t) ?policy ?h ?app = (store, app2)" by force
  note planned = store_plan_wf [OF plan app]
  show ?thesis
    using assms(1,2) Responded plan planned store_wf_quiet(3) [OF planned(1)]
      store_wf_quiet(3) [OF freshen_wf [OF assms(2) t end_to_end_stored]]
    by (auto simp: background_arrive_def refresh_def Let_def finish_wf_def split: if_splits option.splits)
qed (use assms(1) store_wf_quiet(3) [OF assms(2)] in \<open>auto simp: background_arrive_def Let_def\<close>)

lemma poll_collecting_wf:
  assumes "poll_collecting Y sleep M now cl inner app = Inr (cl', app')" and "cache_wf limit app"
    and "handler_wf limit (Collecting cl)"
  shows "cache_wf limit app' \<and> (\<forall>c. cl' = Some c \<longrightarrow> handler_wf limit (Collecting c))"
proof -
  obtain item idle' counted where ip: "idle_poll sleep (cl_idle cl) now inner = Inr (item, idle', counted)"
    using assms(1) by (auto simp: poll_collecting_def split: sum.splits)
  have insert: "store_wf limit (snd (insert_response M (ap_cache app) now key vary sp (cl_status cl) (cl_headers cl) body))"
    for key vary sp body using insert_response_wf [OF assms(2)] assms(3) by (simp add: finish_wf_def)
  show ?thesis
    using assms ip store_wf_quiet(3) [OF assms(2)] store_wf_quiet(3) [OF insert]
    by (cases item rule: poll_exhaust) (auto simp: poll_collecting_def Let_def finish_storing_def finish_wf_def split: if_splits)
qed

lemma respond_wf:
  "respond L req r app = (app', hs, out) \<Longrightarrow> reply_wf limit r app \<Longrightarrow>
     cache_wf limit app' \<and> list_all (handler_wf limit) hs \<and> list_all (\<lambda>q. served_wf limit (snd q)) out"
  by (auto simp: respond_def reply_wf_def)

lemma proceed_wf:
  "proceed L req b app = (app', hs, out) \<Longrightarrow> cache_wf limit app \<Longrightarrow> before_wf limit b \<Longrightarrow>
     cache_wf limit app' \<and> list_all (handler_wf limit) hs \<and> list_all (\<lambda>q. served_wf limit (snd q)) out"
  by (cases b) (auto dest: respond_wf intro: cached_reply_wf)

lemma handler_step_wf:
  assumes "handler_step L Y ttl app h app' hs out" and "cache_wf limit app" and "handler_wf limit h"
  shows "cache_wf limit app' \<and> list_all (handler_wf limit) hs \<and> list_all (\<lambda>q. served_wf limit (snd q)) out"
  using assms
proof induction
  case (serve M wall app now req b task app1 app' hs out)
  then show ?case using serve_from_cache_wf [OF serve(2,4)] proceed_wf [OF serve(3)] by (auto simp: environment_def)
next
  case (woken M wall app now req b task app1 app' hs out sleep c deadline)
  then show ?case using serve_after_wait_wf [OF woken(2,6)] proceed_wf [OF woken(3)] by (auto simp: environment_def)
next
  case (refuse req to payload ch app r app1 app' hs out)
  then show ?case using depart_wf [OF refuse(1)] respond_wf [OF refuse(2)] error_reply_wf by auto
next
  case (send req to payload ch app x parts body app')
  then show ?case using depart_wf [OF send(1)] by simp
next
  case (arrived M wall app now x outcome r app1 app' hs out)
  then show ?case using arrive_wf [OF arrived(2,4)] respond_wf [OF arrived(3)] by simp
next
  case (poll M wall app sleep now sb inner item sb' app')
  then show ?case using poll_streamed_wf [OF poll(2,3)] by simp
next
  case (end_body M wall app sb now)
  then show ?case using settle_wf by (simp add: drop_streamed_def)
next
  case (background M wall app now t outcome cl app')
  then show ?case using background_arrive_wf [OF background(2,3)] by (cases cl) auto
next
  case (collect M wall app sleep now cl inner cl' app')
  then show ?case using poll_collecting_wf [OF collect(2,3,4)] by (cases cl') auto
qed simp_all

section \<open>The invariant\<close>

definition wf_inv :: "nat \<Rightarrow> app_state \<Rightarrow> handler list \<Rightarrow> served \<Rightarrow> bool" where
  "wf_inv limit app hs out \<longleftrightarrow>
     cache_wf limit app \<and> list_all (handler_wf limit) hs \<and> list_all (\<lambda>q. served_wf limit (snd q)) out"

interpretation well_formed: world_invariant L Y mb ttl "wf_inv (st_max_entry (store_new mb ttl))" for L Y mb ttl
proof
  let ?limit = "st_max_entry (store_new mb ttl)"
  show "wf_inv ?limit app [] []" if "ap_cache app = store_new mb ttl" for app
    using that by (simp add: wf_inv_def store_wf_def stored_in_def store_new_def Let_def)
  show "wf_inv ?limit app (hs @ [Arrived req]) out" if "wf_inv ?limit app hs out" for app hs out req
    using that by (simp add: wf_inv_def)
  show "wf_inv ?limit app' (hs1 @ hs @ hs2) (out @ out')"
    if "wf_inv ?limit app (hs1 @ h # hs2) out" "handler_step L Y ttl app h app' hs out'" for app hs1 h hs2 out app' hs out'
    using that(1) handler_step_wf [OF that(2), of ?limit] by (simp add: wf_inv_def)
  show "wf_inv ?limit app' hs out" if "wf_inv ?limit app hs out" "other_step app app'" for app hs out app'
    using that(2,1) store_wf_quiet by cases (simp_all add: wf_inv_def)
qed

text \<open>
  C11. The type of what the cache holds and serves, in every reachable state of the proxy: under a
  response key the store holds only responses, and each has a status that may be stored, a body
  within the entry limit, no hop-by-hop field, \<open>Content-Length\<close>, \<open>Age\<close>, cache label or
  \<open>Set-Cookie\<close>, a lifetime and a grace period within the configured bound, and an age that cannot
  overflow while it is fresh; a handler carries only such responses to the origin; and every response
  served from the cache has a storable status, no hop-by-hop field or \<open>Content-Length\<close>, exactly one
  \<open>Age\<close> and one cache label, a complete body within the limit, and no \<open>Set-Cookie\<close> unless a 304
  of the origin's has just revalidated it.\<close>

theorem stored_responses_well_formed:
  assumes "world_reach L Y mb ttl w" and "http_date_documented L"
    and "limit = min (saturating_mul_u64 mb MIB) MAX_ENTRY_BYTES"
  shows "(Inserted t (ResponseKey k) e \<in> set (st_entries (ap_cache (w_app w))) \<longrightarrow>
      (\<exists>r. e = ResponseEntry r \<and> stored_wf limit r \<and> 0 < sr_ttl r \<and> sr_ttl r \<le> ttl \<and> sr_grace r \<le> ttl \<and>
        sr_initial_age r + sr_ttl r \<le> duration_max)) \<and>
    (h \<in> set (w_handlers w) \<longrightarrow> handler_wf limit h) \<and>
    ((req, response) \<in> set (w_served w) \<and> from_the_cache response \<longrightarrow> cached_wf limit response)"
proof (intro conjI impI)
  have limit: "st_max_entry (store_new mb ttl) = limit" by (simp add: store_new_def Let_def assms(3))
  have inv: "wf_inv limit (w_app w) (w_handlers w) (w_served w)"
    using well_formed.reachable [OF assms(1)] by (simp add: limit)
  then show "handler_wf limit h" if "h \<in> set (w_handlers w)" using that by (simp add: wf_inv_def list_all_iff)
  show "cached_wf limit response" if "(req, response) \<in> set (w_served w) \<and> from_the_cache response"
    using inv that by (force simp: wf_inv_def list_all_iff served_wf_def)
  assume e: "Inserted t (ResponseKey k) e \<in> set (st_entries (ap_cache (w_app w)))"
  obtain H where run: "store_run L mb ttl (ap_cache (w_app w)) H"
    using world_reach_inv [OF assms(1,2)] by (auto simp: world_inv_def history_def)
  note store = store_run_inv [OF run assms(2)] store_run_params [OF run]
  obtain r where r: "e = ResponseEntry r" using store(1) e unfolding store_inv_def kinds_ok_def by blast
  then have "stored_in (ap_cache (w_app w)) t k r" using e by (simp add: stored_in_def)
  then have "stored_wf limit r" "response_ok (ap_cache (w_app w)) t r"
    using inv store(1) unfolding wf_inv_def store_wf_def store_inv_def by blast+
  then show "\<exists>r. e = ResponseEntry r \<and> stored_wf limit r \<and> 0 < sr_ttl r \<and> sr_ttl r \<le> ttl \<and> sr_grace r \<le> ttl \<and>
      sr_initial_age r + sr_ttl r \<le> duration_max"
    using r store(2) by (simp add: response_ok_def)
qed

definition example_insertion :: "instant \<times> response_key \<times> entry" where
  "example_insertion = (case st_entries (ap_cache app_three) ! 1 of Inserted t (ResponseKey k) e \<Rightarrow> (t, k, e))"

theorem stored_responses_well_formed_witness:
  "(\<exists>r. snd (snd example_insertion) = ResponseEntry r \<and>
      stored_wf (min (saturating_mul_u64 1 MIB) MAX_ENTRY_BYTES) r \<and> 0 < sr_ttl r \<and> sr_ttl r \<le> example_ttl \<and>
      sr_grace r \<le> example_ttl \<and> sr_initial_age r + sr_ttl r \<le> duration_max) \<and>
   cached_wf (min (saturating_mul_u64 1 MIB) MAX_ENTRY_BYTES) hit_response"
proof -
  have "case st_entries (ap_cache app_three) of _ # Inserted t (ResponseKey k) e # _ \<Rightarrow> True | _ \<Rightarrow> False" by code_simp
  then have stored: "Inserted (fst example_insertion) (ResponseKey (fst (snd example_insertion)))
      (snd (snd example_insertion)) \<in> set (st_entries (ap_cache app_three))"
    by (simp add: example_insertion_def split: list.splits moka_call.splits cache_key.splits)
  have served: "(example_request, hit_response) \<in> set (w_served hit_world)" by (simp add: hit_world_def)
  have "from_the_cache hit_response" unfolding from_the_cache_def by code_simp
  with stored served show ?thesis
    using stored_responses_well_formed [OF stored_reach http_example_documented(5) refl, unfolded world.simps]
      stored_responses_well_formed [OF hit_world_reach http_example_documented(5) refl] by blast
qed

end
