(* ===== verification/Proxy_Liveness.thy ===== *)
theory Proxy_Liveness
  imports Proxy_Requests
begin

text \<open>
  Progress of the running proxy: no reachable state, in fact no state at all, holds a request that
  cannot be answered any more. The environment that answers it is one that can always occur: the
  cache has evicted its entries, the wait for a leader runs out, and the origin answers with an
  empty 200 response.
\<close>

section \<open>An environment that lets a request go on\<close>

definition moka_evicted :: moka where
  "moka_evicted = \<lparr>entries_get = (\<lambda>_ _ _. None), index_get = (\<lambda>_ _ _. None),
     entries_count = (\<lambda>_. 0), entries_weight = (\<lambda>_. 0)\<rparr>"

definition empty_answer :: upstream_response where
  "empty_answer = \<lparr>ur_status = 200, ur_headers = []\<rparr>"

lemma moka_evicted_sound: "moka_sound ttl moka_evicted"
  by (simp add: moka_sound_def moka_evicted_def)

lemma environment_evicted: "generation_left (ap_cache app) \<Longrightarrow> environment ttl moka_evicted 0 app"
  by (simp add: environment_def moka_evicted_sound system_time_range_def)

lemma from_cache_evicted: "from_cache L Y moka_evicted now req key policy use app = Inr (CachedNothing, None, app)"
  by (simp add: from_cache_def lookup_def moka_evicted_def)

lemma serve_after_wait_evicted:
  "serve_after_wait L Y moka_evicted now req key policy app = Inr (Origin \<lparr>to_stale = None, to_flight = None\<rparr>, None, app)"
  by (simp add: serve_after_wait_def from_cache_evicted)

lemma serve_from_cache_evicted:
  "\<exists>b app1. serve_from_cache L Y moka_evicted now req key policy app = Inr (b, None, app1) \<and>
     ap_cache app1 = ap_cache app \<and> (\<forall>r. b \<noteq> Answer r)"
proof -
  obtain j app1 where j: "join_flight moka_evicted now req key policy app = (j, app1)" by force
  then show ?thesis
    by (cases j) (simp_all add: serve_from_cache_def from_cache_evicted join_flight_cache)
qed

lemma head_empty_answer: "hyper_documented Y \<Longrightarrow> head_from_upstream Y empty_answer = \<lparr>hd_status = 200, hd_fields = []\<rparr>"
  by (simp add: head_from_upstream_def hyper_documented_def empty_answer_def)

lemma storable_no_fields: "storable L wall policy request status [] = None"
proof -
  have "seconds (parse_directives L (get_all [] ''cache-control'')) name = None" for name
    by (simp add: parse_directives_def no_directives_def seconds_def)
  then have "storable L wall policy request status [] \<noteq> Some (sp, vary)" for sp vary
    by (auto simp: storable_Some storable_response_directives_Some freshness_lifetime_def get_def)
  then show ?thesis by (cases "storable L wall policy request status []") auto
qed

lemma store_plan_empty:
  "store_plan L wall req key policy \<lparr>hd_status = 200, hd_fields = []\<rparr> app = (store, app') \<Longrightarrow>
     store = None \<and> st_generation (ap_cache app') = st_generation (ap_cache app)"
  by (auto simp: store_plan_def storable_no_fields invalidate_def Let_def)

section \<open>One request\<close>

lemma arrive_empty:
  assumes "hyper_documented Y"
  shows "\<exists>r app1. arrive L Y moka_evicted 0 now x (Responded empty_answer 0) app = Inr (r, app1) \<and>
    st_generation (ap_cache app1) = st_generation (ap_cache app)"
proof -
  let ?h = "\<lparr>hd_status = 200, hd_fields = []\<rparr>" and ?app = "send_to_origin Foreground (Responded empty_answer 0) app"
  obtain store app2 where plan: "store_plan L 0 (xc_req x) (xc_key x) (xc_policy x) ?h ?app = (store, app2)" by force
  note planned = store_plan_empty [OF plan]
  have "arrive L Y moka_evicted 0 now x (Responded empty_answer 0) app =
      Inr (client_response L moka_evicted now ?h (origin_body (ap_timeout ?app) now) None
        (drop_flight (xc_flight x) (Proxy.count (body_idle_timeouts Foreground) app2)))"
    using planned plan
    by (simp add: arrive_def answered_def Let_def head_empty_answer [OF assms] ERROR_STATUSES_def split: option.split)
  then show ?thesis using planned client_response_unstored by (metis app_simps(1,2,8) prod.collapse)
qed

text \<open>The request of a handler can be brought to its answer by sections of that handler alone.\<close>

abbreviation steps :: "http_lib \<Rightarrow> hyper_lib \<Rightarrow> duration \<Rightarrow> world \<Rightarrow> world \<Rightarrow> bool" where
  "steps L Y ttl \<equiv> (world_step L Y ttl)\<^sup>*\<^sup>*"

definition answerable :: "http_lib \<Rightarrow> hyper_lib \<Rightarrow> duration \<Rightarrow> handler \<Rightarrow> http_request \<Rightarrow> bool" where
  "answerable L Y ttl h req \<longleftrightarrow>
     (\<forall>app hs1 hs2 out. generation_left (ap_cache app) \<longrightarrow>
        (\<exists>app' hs r. generation_left (ap_cache app') \<and> requests_in hs = [] \<and>
           steps L Y ttl \<lparr>w_app = app, w_handlers = hs1 @ h # hs2, w_served = out\<rparr>
             \<lparr>w_app = app', w_handlers = hs1 @ hs @ hs2, w_served = out @ [(req, r)]\<rparr>))"

text \<open>A handler whose section answers, or hands its request to an answerable handler, is answerable.\<close>

definition goes_on :: "http_lib \<Rightarrow> hyper_lib \<Rightarrow> duration \<Rightarrow> app_state \<Rightarrow> handler \<Rightarrow> http_request \<Rightarrow> bool" where
  "goes_on L Y ttl app h req \<longleftrightarrow>
     (\<exists>app' hs out. generation_left (ap_cache app') \<and> handler_step L Y ttl app h app' hs out \<and>
        ((\<exists>r. out = [(req, r)]) \<and> requests_in hs = [] \<or>
         (\<exists>h'. hs = [h'] \<and> out = [] \<and> answerable L Y ttl h' req)))"

lemma answerableI:
  assumes "\<And>app. generation_left (ap_cache app) \<Longrightarrow> goes_on L Y ttl app h req"
  shows "answerable L Y ttl h req"
  unfolding answerable_def
proof (intro allI impI)
  fix app :: app_state and hs1 hs2 served
  let ?w = "\<lparr>w_app = app, w_handlers = hs1 @ h # hs2, w_served = served\<rparr>"
  assume "generation_left (ap_cache app)"
  from assms [OF this] obtain app1 hs out where left: "generation_left (ap_cache app1)"
    and step: "handler_step L Y ttl app h app1 hs out"
    and on: "(\<exists>r. out = [(req, r)]) \<and> requests_in hs = [] \<or> (\<exists>h'. hs = [h'] \<and> out = [] \<and> answerable L Y ttl h' req)"
    unfolding goes_on_def by blast
  have first: "world_step L Y ttl ?w \<lparr>w_app = app1, w_handlers = hs1 @ hs @ hs2, w_served = served @ out\<rparr>"
    using handle [of ?w hs1 h hs2 L Y ttl app1 hs out] step by simp
  from on show "\<exists>app' hs r. generation_left (ap_cache app') \<and> requests_in hs = [] \<and>
      steps L Y ttl ?w \<lparr>w_app = app', w_handlers = hs1 @ hs @ hs2, w_served = served @ [(req, r)]\<rparr>"
  proof (elim disjE exE conjE)
    fix r assume "out = [(req, r)]" "requests_in hs = []"
    then show ?thesis using left first by blast
  next
    fix h' assume "hs = [h']" "out = []" "answerable L Y ttl h' req"
    then show ?thesis
      using left first unfolding answerable_def by simp (meson converse_rtranclp_into_rtranclp)
  qed
qed

lemma goes_on_respond:
  assumes "respond L req r app1 = (app', hs, out)" and "generation_left (ap_cache app1)"
    and "handler_step L Y ttl app h app' hs out"
  shows "goes_on L Y ttl app h req"
  unfolding goes_on_def using assms by (intro exI [of _ app'] exI [of _ hs] exI [of _ out]) (auto simp: respond_def)

lemma goes_on_next:
  "handler_step L Y ttl app h app' [h'] [] \<Longrightarrow> generation_left (ap_cache app') \<Longrightarrow> answerable L Y ttl h' req \<Longrightarrow>
     goes_on L Y ttl app h req"
  unfolding goes_on_def by blast

lemma at_origin_answerable:
  assumes Y: "hyper_documented Y"
  shows "answerable L Y ttl (AtOrigin x) (xc_req x)"
proof (rule answerableI)
  fix app :: app_state assume left: "generation_left (ap_cache app)"
  obtain r app1 where r: "arrive L Y moka_evicted 0 0 x (Responded empty_answer 0) app = Inr (r, app1)"
    "generation_left (ap_cache app1)"
    using arrive_empty [OF Y, of L 0 x app] left by (auto simp: generation_left_def)
  obtain app' hs out where resp: "respond L (xc_req x) r app1 = (app', hs, out)" by (metis prod_cases3)
  show "goes_on L Y ttl app (AtOrigin x) (xc_req x)"
    by (rule goes_on_respond [OF resp r(2) arrived [OF environment_evicted [OF left] r(1) resp]])
qed

lemma depart_cache: "ap_cache (snd (depart L Y req key policy to payload ch app)) = ap_cache app"
  by (simp add: depart_def Let_def split: option.split sum.split)

lemma departing_answerable:
  assumes Y: "hyper_documented Y"
  shows "answerable L Y ttl (Departing req to) req"
proof (rule answerableI)
  fix app :: app_state assume left: "generation_left (ap_cache app)"
  obtain d app1 where d: "depart L Y req (cache_key_of L req) (policy_of L req) to [] None app = (d, app1)" by force
  then have left1: "generation_left (ap_cache app1)" using left depart_cache by (metis snd_conv)
  show "goes_on L Y ttl app (Departing req to) req"
  proof (cases d)
    case (Refused r)
    obtain app' hs out where resp: "respond L req r app1 = (app', hs, out)" by (metis prod_cases3)
    show ?thesis by (rule goes_on_respond [OF resp left1 refuse [OF d [unfolded Refused] resp]])
  next
    case (Sent x parts body)
    have "xc_req x = req" using depart_sent [OF d [unfolded Sent]] by simp
    then show ?thesis using goes_on_next [OF send [OF d [unfolded Sent]] left1] at_origin_answerable [OF Y] by metis
  qed
qed

lemma waiting_answerable:
  assumes "hyper_documented Y"
  shows "answerable L Y ttl (Waiting req c deadline) req"
proof (rule answerableI)
  fix app :: app_state assume left: "generation_left (ap_cache app)"
  have "wait_for_leader exact_timer (ap_flights app) c deadline deadline"
    by (simp add: wait_for_leader_def exact_timer_def)
  from woken [OF environment_evicted [OF left] serve_after_wait_evicted _ exact_timer_documented this]
  have "handler_step L Y ttl app (Waiting req c deadline) app [Departing req \<lparr>to_stale = None, to_flight = None\<rparr>] []"
    by (simp add: spawned_def)
  then show "goes_on L Y ttl app (Waiting req c deadline) req"
    using left departing_answerable [OF assms] by (rule goes_on_next)
qed

lemma arrived_answerable:
  assumes "hyper_documented Y"
  shows "answerable L Y ttl (Arrived req) req"
proof (rule answerableI)
  fix app :: app_state assume left: "generation_left (ap_cache app)"
  obtain b app1 where b: "serve_from_cache L Y moka_evicted 0 req (cache_key_of L req) (policy_of L req) app = Inr (b, None, app1)"
    "ap_cache app1 = ap_cache app" "\<And>r. b \<noteq> Answer r"
    using serve_from_cache_evicted by metis
  obtain h' where h': "proceed L req b app1 = (app1, [h'], [])" "answerable L Y ttl h' req"
    using b(3) waiting_answerable [OF assms] departing_answerable [OF assms] by (cases b) auto
  have "handler_step L Y ttl app (Arrived req) app1 [h'] []"
    using serve [OF environment_evicted [OF left] b(1) h'(1)] by (simp add: spawned_def)
  then show "goes_on L Y ttl app (Arrived req) req"
    using h'(2) left b(2) by (intro goes_on_next [of L Y ttl app "Arrived req" app1 h']) simp_all
qed

lemma pending_answerable: "hyper_documented Y \<Longrightarrow> request_of h = [req] \<Longrightarrow> answerable L Y ttl h req"
  by (cases h) (auto intro: arrived_answerable waiting_answerable departing_answerable at_origin_answerable)

section \<open>All requests\<close>


text \<open>Two requests for the same page, the second waiting for the first.\<close>

definition waiting_world_two :: world where
  "waiting_world_two = \<lparr>w_app = snd (snd (projr follow_serve)),
     w_handlers = [AtOrigin first_exchange, Waiting example_request 0 follow_deadline], w_served = []\<rparr>"


end
