(* ===== verification/Proxy_Roundtrip.thy ===== *)
theory Proxy_Roundtrip
  imports Proxy_Props
begin

text \<open>
  The way of a response through the cache, from the origin's answer to one request to the answer to
  the next: the body is copied while it streams, stored when it has arrived whole, and found again.
\<close>

section \<open>The copy of a streaming body\<close>

lemma tee_run_chunks:
  assumes "te_copy t = Some c" and "length (bc_buffer c @ concat ss) \<le> bc_limit c"
    and "\<And>n. te_length t = Some n \<Longrightarrow> length (bc_buffer c @ concat ss) < n"
  shows "snd (snd (tee_run t (chunks ss))) = t\<lparr>te_copy := Some (c\<lparr>bc_buffer := bc_buffer c @ concat ss\<rparr>)\<rparr>"
  using assms
proof (induction ss arbitrary: t c)
  case (Cons s ss)
  let ?c = "c\<lparr>bc_buffer := bc_buffer c @ s\<rparr>"
  have "te_length t \<noteq> Some (length (bc_buffer c @ s))" using Cons.prems(3) by fastforce
  then show ?case
    using Cons.IH [of "t\<lparr>te_copy := Some ?c\<rparr>" ?c] Cons.prems
    by (simp add: tee_run_Cons tee_poll_copy [OF Cons.prems(1)])
qed simp

text \<open>The polls with which a body arrives whole: its chunks, and its end unless the origin gave its length.\<close>

definition whole_body :: "nat option \<Rightarrow> string list \<Rightarrow> chunk_poll list \<Rightarrow> chunk_poll \<Rightarrow> bool" where
  "whole_body len ss ps p \<longleftrightarrow>
     (case len of
        None \<Rightarrow> ps = chunks ss \<and> p = Ready None
      | Some n \<Rightarrow> ss \<noteq> [] \<and> last ss \<noteq> [] \<and> ps = chunks (butlast ss) \<and> p = Ready (Some (Inr (last ss))) \<and>
          n = length (concat ss))"

lemma concat_butlast: "ss \<noteq> [] \<Longrightarrow> concat (butlast ss) @ last ss = concat ss"
  by (induction ss) auto

lemma tee_whole_body:
  assumes "whole_body len ss ps p" and "length (concat ss) \<le> limit"
    and "tee_new len (Some \<lparr>bc_buffer = [], bc_limit = limit\<rparr>) = (ev, t)"
  shows "ev = None \<and> fst (snd (tee_poll (snd (snd (tee_run t ps))) p)) = Some (Finished (concat ss))"
proof (cases len)
  case None
  then have t: "ev = None" "t = \<lparr>te_length = None, te_copy = Some \<lparr>bc_buffer = [], bc_limit = limit\<rparr>\<rparr>"
    using assms(3) by (auto simp: tee_new_def)
  have "snd (snd (tee_run t (chunks ss))) = t\<lparr>te_copy := Some \<lparr>bc_buffer = concat ss, bc_limit = limit\<rparr>\<rparr>"
    using tee_run_chunks [of t "\<lparr>bc_buffer = [], bc_limit = limit\<rparr>" ss] assms(2) by (simp add: t(2))
  then show ?thesis
    using assms(1) None tee_poll_copy(3) [of "t\<lparr>te_copy := Some \<lparr>bc_buffer = concat ss, bc_limit = limit\<rparr>\<rparr>"]
    by (simp add: whole_body_def t)
next
  case (Some n)
  then have w: "ss \<noteq> []" "last ss \<noteq> []" "ps = chunks (butlast ss)" "p = Ready (Some (Inr (last ss)))" "n = length (concat ss)"
    using assms(1) by (auto simp: whole_body_def)
  have split: "concat ss = concat (butlast ss) @ last ss" using concat_butlast [OF w(1)] by simp
  have n: "length (concat (butlast ss)) < n" using w(2,5) split by simp
  then have t: "ev = None" "t = \<lparr>te_length = Some n, te_copy = Some \<lparr>bc_buffer = [], bc_limit = limit\<rparr>\<rparr>"
    using assms(3) Some by (auto simp: tee_new_def split: if_splits)
  have "snd (snd (tee_run t ps)) = t\<lparr>te_copy := Some \<lparr>bc_buffer = concat (butlast ss), bc_limit = limit\<rparr>\<rparr>"
    using tee_run_chunks [of t "\<lparr>bc_buffer = [], bc_limit = limit\<rparr>" "butlast ss"] assms(2) n w(3,5) by (simp add: t(2))
  then show ?thesis
    using assms(2) w(4,5) split t(1)
      tee_poll_copy(4) [of "t\<lparr>te_copy := Some \<lparr>bc_buffer = concat (butlast ss), bc_limit = limit\<rparr>\<rparr>"
        "\<lparr>bc_buffer = concat (butlast ss), bc_limit = limit\<rparr>" "last ss"]
    by (simp add: t(2))
qed

text \<open>The polls of a body between which anything may happen to the shared state.\<close>

inductive streams :: "streamed \<Rightarrow> chunk_poll list \<Rightarrow> streamed \<Rightarrow> bool" where
  streams_Nil: "streams sb [] sb"
| streams_Cons: "poll_streamed sleep M now sb p app = Inr (p, sb1, app1) \<Longrightarrow> streams sb1 ps sb2 \<Longrightarrow> streams sb (p # ps) sb2"

lemma poll_streamed_passed:
  assumes "poll_streamed sleep M now sb p app = Inr (p, sb1, app1)"
  shows "sb_finish sb1 = sb_finish sb \<and> sb_tee sb1 = snd (snd (tee_poll (sb_tee sb) p)) \<and>
    (\<exists>app0. ap_cache app0 = ap_cache app \<and> app1 = settle M now (sb_finish sb) (fst (snd (tee_poll (sb_tee sb) p))) app0)"
proof -
  obtain item idle' counted where ip: "idle_poll sleep (sb_idle sb) now p = Inr (item, idle', counted)"
    using assms by (auto simp: poll_streamed_def split: sum.splits)
  obtain out ev tee' where tp: "tee_poll (sb_tee sb) item = (out, ev, tee')" by (metis prod_cases3)
  have "out = item" using tee_poll_transparent [of "sb_tee sb" item] tp by simp
  then have "item = p" "sb1 = sb\<lparr>sb_idle := idle', sb_tee := tee'\<rparr>"
    "app1 = settle M now (sb_finish sb) ev (if counted then count (idle_timeout_inc (sb_kind sb)) app else app)"
    using assms ip tp by (auto simp: poll_streamed_def Let_def)
  then show ?thesis
    using tp by (auto intro!: exI [of _ "if counted then count (idle_timeout_inc (sb_kind sb)) app else app"])
qed

lemma streams_tee: "streams sb ps sb' \<Longrightarrow> sb_finish sb' = sb_finish sb \<and> sb_tee sb' = snd (snd (tee_run (sb_tee sb) ps))"
proof (induction rule: streams.induct)
  case (streams_Cons sleep M now sb p app sb1 app1 ps sb2)
  then show ?case using poll_streamed_passed [OF streams_Cons(1)] by (simp add: tee_run_Cons)
qed simp

section \<open>The forwarded response\<close>

lemma forwarded_storing:
  assumes "arrive L Y M wall now x (Responded u took) app = Inr (r, app1)" and "xc_stale x = None"
    and h: "h = head_from_upstream Y u"
    and "storable L wall (xc_policy x) (rq_headers (xc_req x)) (hd_status h) (hd_fields h) = Some (sp, vary)"
    and "len = content_length L h" and "len = None \<or> the len \<le> st_max_entry (ap_cache app)"
    and "body_handlers (rs_body r) = [Streaming sb]"
  shows "\<exists>sg ev. sb_finish sb = Some (sg, hd_status h, stored_fields (forwardable_fields L h)) \<and>
    sg_key sg = xc_key x \<and> sg_vary sg = vary \<and> sg_storable sg = sp \<and>
    tee_new len (Some \<lparr>bc_buffer = [], bc_limit = st_max_entry (ap_cache app)\<rparr>) = (ev, sb_tee sb)"
proof -
  let ?app = "send_to_origin Foreground (Responded u took) app"
  obtain store app2 where plan: "store_plan L wall (xc_req x) (xc_key x) (xc_policy x) h ?app = (store, app2)" by force
  then obtain sg where sg: "store = Some sg" "sg_key sg = xc_key x" "sg_vary sg = vary" "sg_storable sg = sp"
    "sg_limit sg = st_max_entry (ap_cache app)"
    using assms(4) by (auto simp: store_plan_def Let_def invalidate_def split: if_splits)
  let ?sg = "sg\<lparr>sg_flight := xc_flight x\<rparr>"
  have client: "client_response L M now h (origin_body (ap_timeout ?app) now) (Some ?sg)
      (count (body_idle_timeouts Foreground) app2) = (r, app1)"
    using assms(1,2) plan sg(1) by (simp add: arrive_def answered_def Let_def flip: h)
  obtain ev tee where tee: "tee_new len (Some \<lparr>bc_buffer = [], bc_limit = st_max_entry (ap_cache app)\<rparr>) = (ev, tee)" by force
  have "sb = \<lparr>sb_idle = origin_body (ap_timeout ?app) now, sb_kind = Foreground, sb_tee = tee,
      sb_finish = Some (?sg, hd_status h, stored_fields (forwardable_fields L h))\<rparr>"
    using client assms(5-7) tee sg(5)
    by (auto simp: client_response_def Let_def split: option.splits)
  then show ?thesis using sg tee by auto
qed

section \<open>The answer to the next request\<close>

text \<open>The cache has kept what was stored last.\<close>

definition retains :: "moka \<Rightarrow> store \<Rightarrow> instant \<Rightarrow> primary_key \<Rightarrow> bool" where
  "retains M s now key \<longleftrightarrow>
     index_get M (st_index s) now key = map_option snd (latest (st_index s) key) \<and>
     (\<forall>k. entries_get M (st_entries s) now (ResponseKey k) = map_option snd (latest (st_entries s) (ResponseKey k)))"

lemma stored_then_fresh:
  assumes ins: "insert_response M s now key vary sp status headers body = (Some r, s')" and kept: "retains M' s' later key"
    and vals: "vary_values (vk_names vary) request = vk_values vary"
    and fresh: "later - now < min (so_ttl sp) (st_ttl s)" and fits: "so_initial_age sp + so_ttl sp \<le> duration_max"
    and age: "\<And>m. oldest = Some m \<Longrightarrow> so_initial_age sp + (later - now) \<le> m"
  shows "lookup M' s' later key request oldest = Inr (Some (Fresh r)) \<and>
    response_age r later = Inr (so_initial_age sp + (later - now))"
proof -
  note stored = insert_response_Some [OF ins]
  have r: "sr_ttl r = min (so_ttl sp) (st_ttl s)" "sr_stored_at r = now" "sr_initial_age r = so_initial_age sp"
    by (simp_all add: stored(1) new_response_simps)
  have a: "response_age r later = Inr (so_initial_age sp + (later - now))"
    using fresh fits by (simp add: response_age_def r elapsed_def add_dur_def)
  have "\<lparr>rk_primary = key, rk_generation = fst (generation_for M s now key (vk_names vary)),
      rk_vary = vary_values (vk_names vary) request\<rparr> = response_key_for M s now key vary"
    by (simp add: response_key_for_def vals)
  then show ?thesis
    using kept fresh age a by (auto simp: lookup_def retains_def stored(4,5) is_fresh_def r elapsed_def split: option.split)
qed

text \<open>
  C3. What the origin sends to one request is what the next one gets. When the origin answers a request
  that found nothing stored with a storable response, its body arrives whole, with or without a
  declared length and in any chunks, between any other work of the proxy, and fits the entry limit,
  then a request for the same key with the same values for the headers that the response varies on,
  made while the response is fresh and not older than the request accepts and the cache has kept it,
  is answered at once with a \<open>HIT\<close>: the origin's status, exactly the bytes the origin sent, the
  age the response has by then, and the origin's end-to-end header fields.\<close>

theorem origin_response_served_again:
  assumes "arrive L Y M wall now x (Responded u took) app = Inr (r, app1)" and "xc_stale x = None"
    and "h = head_from_upstream Y u"
    and "storable L wall (xc_policy x) (rq_headers (xc_req x)) (hd_status h) (hd_fields h) = Some (sp, vary)"
    and "body_handlers (rs_body r) = [Streaming sb]" and "streams sb ps sb'"
    and "whole_body (content_length L h) ss ps p" and "length (concat ss) \<le> st_max_entry (ap_cache app)"
    and "poll_streamed sleep M2 ended sb' p app2 = Inr (p, sb'', app3)"
    and "store_enabled (ap_cache app2)" and "st_max_entry (ap_cache app2) = st_max_entry (ap_cache app)"
    and "http_date_documented L" and "system_time_range wall"
    and "cache_key_of L req = xc_key x" and "may_serve (policy_of L req)"
    and "vary_values (vk_names vary) (rq_headers req) = vk_values vary"
    and "later - ended < min (so_ttl sp) (st_ttl (ap_cache app2))"
    and "max_age (policy_of L req) = None \<or> so_initial_age sp + (later - ended) \<le> the (max_age (policy_of L req))"
    and "retains M3 (ap_cache app3) later (xc_key x)"
  shows "\<exists>r2. serve_from_cache L Y M3 later req (cache_key_of L req) (policy_of L req) app3 = Inr (Answer r2, None, app3) \<and>
    cache_label r2 = Some HIT \<and> rs_status r2 = hd_status h \<and> rs_body r2 = FullBody (concat ss) \<and>
    get_all (rs_headers r2) ''age'' = [to_decimal (as_secs (so_initial_age sp + (later - ended)))] \<and>
    (\<forall>n. n \<noteq> ''age'' \<and> n \<noteq> CACHE_STATUS \<longrightarrow> get_all (rs_headers r2) n = get_all (forwardable_fields L h) n)"
proof -
  let ?len = "content_length L h" and ?fields = "stored_fields (forwardable_fields L h)"
  have fits: "?len = None \<or> the ?len \<le> st_max_entry (ap_cache app)"
    using assms(7,8) by (auto simp: whole_body_def split: option.splits)
  obtain sg ev where sg: "sb_finish sb = Some (sg, hd_status h, ?fields)" "sg_key sg = xc_key x" "sg_vary sg = vary"
    "sg_storable sg = sp" and tee: "tee_new ?len (Some \<lparr>bc_buffer = [], bc_limit = st_max_entry (ap_cache app)\<rparr>) = (ev, sb_tee sb)"
    using forwarded_storing [OF assms(1-4) refl fits assms(5)] by blast
  have finish: "sb_finish sb' = sb_finish sb" "fst (snd (tee_poll (sb_tee sb') p)) = Some (Finished (concat ss))"
    using streams_tee [OF assms(6)] tee_whole_body [OF assms(7,8) tee] by simp_all
  obtain app0 where app0: "ap_cache app0 = ap_cache app2" "app3 = settle M2 ended (sb_finish sb') (Some (Finished (concat ss))) app0"
    using poll_streamed_passed [OF assms(9)] finish(2) by auto
  obtain ret s' where ins: "insert_response M2 (ap_cache app2) ended (xc_key x) vary sp (hd_status h) ?fields (concat ss) = (ret, s')"
    by force
  then obtain stored where stored: "ret = Some stored"
    using assms(8,10,11) by (auto simp: insert_response_eq Let_def split: if_splits)
  have cache: "ap_cache app3 = s'" using app0 finish(1) sg ins by (simp add: settle_def finish_storing_def)
  have age: "so_initial_age sp + (later - ended) \<le> m" if "max_age (policy_of L req) = Some m" for m
    using assms(18) that by auto
  have "so_initial_age sp + so_ttl sp \<le> duration_max"
    using assms(4,12,13) by (auto simp: storable_Some dest: freshness_lifetime_bound)
  note found = stored_then_fresh [OF ins [unfolded stored] assms(19) [unfolded cache] assms(16,17) this]
  have look: "lookup M3 (ap_cache app3) later (cache_key_of L req) (rq_headers req) (max_age (policy_of L req)) =
      Inr (Some (Fresh stored))" "response_age stored later = Inr (so_initial_age sp + (later - ended))"
    using found [OF age] assms(14) cache by simp_all
  define r2 where "r2 = \<lparr>rs_status = sr_status stored,
    rs_headers = cached_headers stored (so_initial_age sp + (later - ended)) HIT, rs_body = FullBody (sr_body stored)\<rparr>"
  have cached: "cached_response stored later HIT = Inr r2" using look(2) by (simp add: cached_response_def r2_def)
  have "from_cache L Y M3 later req (cache_key_of L req) (policy_of L req) Hit app3 = Inr (CachedAnswer r2, None, app3)"
    using assms(15) look(1) cached by (simp add: from_cache_def)
  then have serve: "serve_from_cache L Y M3 later req (cache_key_of L req) (policy_of L req) app3 = Inr (Answer r2, None, app3)"
    by (simp add: serve_from_cache_def drop_flight_def)
  have content: "sr_status stored = hd_status h" "sr_body stored = concat ss" "sr_headers stored = ?fields"
    using insert_response_Some(1) [OF ins [unfolded stored]] by (simp_all add: new_response_simps)
  show ?thesis
    using serve content cache_label_cached [OF cached]
    by (intro exI [of _ r2]) (simp add: r2_def cached_headers_def get_all_stored_fields CACHE_STATUS_def CACHE_LABELS_def)
qed

section \<open>A page of two bytes\<close>

lemma live_get_latest:
  assumes "list_all (\<lambda>c. case c of Inserted t k v \<Rightarrow> now \<le> t + life v | _ \<Rightarrow> True) calls"
  shows "live_get life calls now k = map_option snd (latest calls k)"
  using assms
proof (induction calls)
  case (Cons c calls)
  then show ?case by (cases c) (auto simp: live_get_def)
qed (simp add: live_get_def)

definition page_answer :: upstream_response where
  "page_answer =
     \<lparr>ur_status = 200, ur_headers = [(''cache-control'', ''max-age=60''), (''content-length'', ''2'')]\<rparr>"

abbreviation (input) page_head :: head where
  "page_head \<equiv> head_from_upstream hyper_example page_answer"

text \<open>The exchange, the two polls and the states between them, as one run.\<close>

definition page_run :: "(response \<times> app_state \<times> streamed \<times> (chunk_poll \<times> streamed \<times> app_state) \<times>
    (chunk_poll \<times> streamed \<times> app_state)) option" where
  "page_run =
     (case arrive http_example hyper_example (moka_example example_ttl) 0 2000 first_exchange
             (Responded page_answer 1000) app_two of
        Inl f \<Rightarrow> None
      | Inr (r, app1) \<Rightarrow>
          (case body_handlers (rs_body r) of
             [Streaming sb] \<Rightarrow>
               (case poll_streamed (\<le>) (moka_example example_ttl) 2500 sb (Ready (Some (Inr ''h''))) app1 of
                  Inl f \<Rightarrow> None
                | Inr (out1, sb1, app2) \<Rightarrow>
                    (case poll_streamed (\<le>) (moka_example example_ttl) 3000 sb1 (Ready (Some (Inr ''i''))) app2 of
                       Inl f \<Rightarrow> None
                     | Inr (out2, sb2, app3) \<Rightarrow> Some (r, app1, sb, (out1, sb1, app2), (out2, sb2, app3))))
           | _ \<Rightarrow> None))"

definition page_kept :: app_state where
  "page_kept = (case page_run of Some (_, _, _, _, (_, _, app)) \<Rightarrow> app)"

definition page_storable :: "storable_policy \<times> vary_key" where
  "page_storable = the (storable http_example 0 (xc_policy first_exchange) (rq_headers (xc_req first_exchange))
     (hd_status page_head) (hd_fields page_head))"

lemma page_run_checked:
  "case page_run of None \<Rightarrow> False
   | Some (r, app1, sb, (out1, sb1, app2), (out2, sb2, app3)) \<Rightarrow>
       out1 = Ready (Some (Inr ''h'')) \<and> out2 = Ready (Some (Inr ''i'')) \<and>
       store_enabled (ap_cache app2) \<and> st_max_entry (ap_cache app2) = MIB \<and> st_ttl (ap_cache app2) = example_ttl \<and>
       list_all (\<lambda>c. case c of Inserted t k v \<Rightarrow> 4000 \<le> t + entry_ttl v | _ \<Rightarrow> True) (st_entries (ap_cache app3)) \<and>
       list_all (\<lambda>c. case c of Inserted t k v \<Rightarrow> 4000 \<le> t + index_time_to_live example_ttl | _ \<Rightarrow> True) (st_index (ap_cache app3))"
  by code_simp

lemma page_exchange:
  "st_max_entry (ap_cache app_two) = MIB" "xc_stale first_exchange = None" "xc_key first_exchange = request_key"
  "storable http_example 0 (xc_policy first_exchange) (rq_headers (xc_req first_exchange))
     (hd_status page_head) (hd_fields page_head) = Some (fst page_storable, snd page_storable)"
  "vary_values (vk_names (snd page_storable)) (rq_headers example_request) = vk_values (snd page_storable)"
  "so_ttl (fst page_storable) = from_secs 60" "so_initial_age (fst page_storable) = 0"
  by code_simp+

theorem origin_response_served_again_witness:
  "\<exists>r2. serve_from_cache http_example hyper_example (moka_example example_ttl) 4000 example_request
      request_key example_policy page_kept = Inr (Answer r2, None, page_kept) \<and>
    cache_label r2 = Some HIT \<and> rs_status r2 = 200 \<and> rs_body r2 = FullBody ''hi'' \<and> get_all (rs_headers r2) ''age'' = [''0'']"
proof -
  let ?M = "moka_example example_ttl"
  obtain r app1 sb out1 sb1 app2 out2 sb2 app3 where run: "page_run = Some (r, app1, sb, (out1, sb1, app2), (out2, sb2, app3))"
    using page_run_checked by (metis (no_types, lifting) option.case_eq_if option.collapse prod_cases3)
  have app3: "app3 = page_kept" by (simp add: page_kept_def run)
  have out: "out1 = Ready (Some (Inr ''h''))" "out2 = Ready (Some (Inr ''i''))"
    and app2: "store_enabled (ap_cache app2)" "st_max_entry (ap_cache app2) = MIB" "st_ttl (ap_cache app2) = example_ttl"
    and live: "list_all (\<lambda>c. case c of Inserted t k v \<Rightarrow> 4000 \<le> t + entry_ttl v | _ \<Rightarrow> True) (st_entries (ap_cache page_kept))"
      "list_all (\<lambda>c. case c of Inserted t k v \<Rightarrow> 4000 \<le> t + index_time_to_live example_ttl | _ \<Rightarrow> True) (st_index (ap_cache page_kept))"
    using page_run_checked by (simp_all add: run app3)
  have steps: "arrive http_example hyper_example ?M 0 2000 first_exchange (Responded page_answer 1000) app_two = Inr (r, app1)"
    "body_handlers (rs_body r) = [Streaming sb]"
    "poll_streamed (\<le>) ?M 2500 sb (Ready (Some (Inr ''h''))) app1 = Inr (Ready (Some (Inr ''h'')), sb1, app2)"
    "poll_streamed (\<le>) ?M 3000 sb1 (Ready (Some (Inr ''i''))) app2 = Inr (Ready (Some (Inr ''i'')), sb2, page_kept)"
    using run [unfolded out app3] by (auto simp: page_run_def split: sum.splits list.splits handler.splits)
  have whole: "whole_body (content_length http_example page_head) [''h'', ''i''] [Ready (Some (Inr ''h''))] (Ready (Some (Inr ''i'')))"
    by code_simp
  have kept: "retains ?M (ap_cache page_kept) 4000 (xc_key first_exchange)"
    unfolding retains_def using live by (simp add: moka_example_def live_get_latest)
  have policy: "may_serve example_policy" "max_age example_policy = None" by code_simp+
  have limits: "length (concat [''h'', ''i'']) \<le> st_max_entry (ap_cache app_two)"
    "st_max_entry (ap_cache app2) = st_max_entry (ap_cache app_two)" "system_time_range 0"
    "4000 - 3000 < min (so_ttl (fst page_storable)) (st_ttl (ap_cache app2))"
    "max_age example_policy = None \<or> so_initial_age (fst page_storable) + (4000 - 3000) \<le> the (max_age example_policy)"
    by (simp_all add: page_exchange app2 MIB_def example_ttl_def from_secs_def nanos_per_sec_def system_time_range_def policy)
  have evaluated: "[to_decimal (as_secs (so_initial_age (fst page_storable) + (4000 - 3000)))] = [''0'']"
    "hd_status page_head = 200" "concat [''h'', ''i''] = ''hi''" unfolding page_exchange by code_simp+
  obtain r2 where "serve_from_cache http_example hyper_example ?M 4000 example_request request_key example_policy page_kept =
      Inr (Answer r2, None, page_kept)" and "cache_label r2 = Some HIT"
    and "rs_status r2 = hd_status page_head" and "rs_body r2 = FullBody (concat [''h'', ''i''])"
    and "get_all (rs_headers r2) ''age'' = [to_decimal (as_secs (so_initial_age (fst page_storable) + (4000 - 3000)))]"
    using origin_response_served_again [OF steps(1) page_exchange(2) refl page_exchange(4) steps(2)
        streams_Cons [OF steps(3) streams_Nil] whole limits(1) steps(4) app2(1) limits(2) http_example_documented(5) limits(3)
        page_exchange(3) [symmetric] policy(1) page_exchange(5) limits(4,5) kept] by blast
  then show ?thesis unfolding evaluated by blast
qed

end
