(* ===== verification/Spec2Isabelle.thy ===== *)
theory Spec2Isabelle
  imports System_Counts System_Panics Proxy_Requests Proxy_Refresh Proxy_Stored Proxy_Liveness Proxy_Roundtrip
begin

text \<open>
  Verification of shadowstep, an edge CDN node: a shared HTTP cache in front of one origin, with
  static assets, metrics and TLS listeners. The sources are the Rust files under \<^verbatim>\<open>src/src/\<close>.

  \<^bold>\<open>The program.\<close> A request comes in on a listener and is routed (\<^verbatim>\<open>lib.rs\<close>) to \<open>/health\<close>, \<open>/metrics\<close>,
  \<open>/assets\<close> or, for everything else, to the proxy. The proxy (\<^verbatim>\<open>proxy.rs\<close>) computes what the request's
  headers allow (\<open>RequestPolicy\<close>) and looks in the store (\<^verbatim>\<open>cache.rs\<close>). It answers from the store, joins
  the flight of another request for the same key (\<^verbatim>\<open>coalesce.rs\<close>), or goes to the origin; the answer
  streams to the client through an idle timeout and a tee that keeps a copy for the store. Stale
  responses are revalidated before use, or in the background. The assets (\<^verbatim>\<open>assets.rs\<close>) share the store
  with the responses. All handlers share one \<open>AppState\<close>.

  \<^bold>\<open>Theories and sources.\<close>
  \<^item> \<open>Prelude\<close>, \<open>Text_Ops\<close>, \<open>Paths\<close>: what the sources use of the standard library (integers that saturate
    or wrap, durations and instants with their panics, strings as UTF-8 bytes, \<open>std::path\<close> for Unix).
  \<^item> \<open>Http\<close>: header maps, and the http and httpdate crates as the record \<open>http_lib\<close>.
  \<^item> \<open>Cache_Control\<close>, \<open>Policy\<close>: the policy part of \<^verbatim>\<open>cache.rs\<close> (\<open>Directives\<close>, \<open>RequestPolicy\<close>, \<open>storable\<close>,
    \<open>vary_names\<close>, \<open>freshness_lifetime\<close>).
  \<^item> \<open>Store\<close>: \<open>Store\<close> of \<^verbatim>\<open>cache.rs\<close>, one definition per method; \<open>Store_Inv\<close>, \<open>Store_Correct\<close> and
    \<open>Store_Props\<close> hold its invariant, its abstract specification and its properties.
  \<^item> \<open>Contracts\<close>: the two interfaces as locales, \<open>claims\<close> (exclusive claims on keys, provided by the flights
    and by the refresh guards) and \<open>variant_cache\<close> (a cache of the variants of a target, provided by the
    store).
  \<^item> \<open>Coalesce\<close>: \<^verbatim>\<open>coalesce.rs\<close>, with the two parts of dropping a guard as separate steps.
  \<^item> \<open>Metrics\<close>: \<^verbatim>\<open>metrics.rs\<close>. \<open>Forwarded\<close>: \<^verbatim>\<open>forwarded.rs\<close>.
  \<^item> \<open>Body\<close>: the streams of \<^verbatim>\<open>proxy.rs\<close> (\<open>Tee\<close>, \<open>IdleTimeout\<close>, the request body). \<open>Proxy_Msg\<close>: the messages to
    the origin and to the client. \<open>Proxy\<close>: the handlers, one definition per section between two awaits.
  \<^item> \<open>Proxy_Cases\<close>: case rules for the sections. \<open>Proxy_World\<close>: all handlers of the proxy interleaved, as a step relation, with the invariant that ties
    every stored and served response to its exchange. \<open>Proxy_Flights\<close>: the refinement of that relation to
    the flights of \<open>Coalesce\<close>. \<open>Proxy_Props\<close>, \<open>Proxy_Unsafe\<close>: the properties, with worked runs.
  \<^item> \<open>World_Invariant\<close>: the locale \<open>world_invariant\<close>, by which an invariant of the running proxy follows from
    its four laws. \<open>Proxy_Moves\<close>: what a section of a handler does to the shared state, as a sequence of
    moves. \<open>Proxy_Refresh\<close>, \<open>Proxy_Stored\<close> and \<open>Proxy_Unsafe\<close> interpret the locale for the background
    revalidations, for the type of what the cache holds and for the stale responses in flight;
    \<open>Proxy_Requests\<close> accounts for every request, \<open>Proxy_Liveness\<close> shows that each can be answered, and
    \<open>Proxy_Roundtrip\<close> follows a response from the origin through the store to the next client.
  \<^item> \<open>Assets\<close>: \<^verbatim>\<open>assets.rs\<close>. \<open>App\<close>: \<^verbatim>\<open>lib.rs\<close>, \<^verbatim>\<open>config.rs\<close>, \<^verbatim>\<open>tls.rs\<close> and \<^verbatim>\<open>main.rs\<close>. \<open>System\<close>: the whole program as a
    step relation. \<open>Asset_Inv\<close>, \<open>System_Props\<close>: the invariant of the assets and the properties. \<open>System_Counts\<close>:
    what \<open>/health\<close> and the metrics count. \<open>System_Panics\<close>: where a section can panic.

  \<^bold>\<open>State and operations.\<close> Structs are records and enums datatypes. A method that changes shared state
  returns the new state. Early returns and errors are values of sum and option types; a panic of the
  standard library is a \<open>fault\<close> (the release profile aborts on panic). A handler is suspended at an await
  point as a value that holds what the Rust future holds there; a guard is dropped where Rust drops
  it, also when the client goes away. Clocks are arguments: a section reads the monotonic clock once.

  \<^bold>\<open>Third-party code\<close> is a parameter: moka (the record \<open>moka\<close>, over the log of the calls made on a cache),
  prometheus (\<open>prom_lib\<close>), http, httpdate, hyper and url (\<open>http_lib\<close>, \<open>hyper_lib\<close>), tokio's timer, the file
  system (\<open>file_system\<close>, at each moment another one), sha2, hex and mime_guess (\<open>asset_lib\<close>), clap, rustls,
  sockets and actix-web's router. What a theorem needs of them is a named hypothesis
  (\<open>moka_sound\<close>, \<open>http_date_documented\<close>, \<open>hyper_documented\<close>, \<open>prom_documented\<close>, \<open>stamps_documented\<close>,
  \<open>canonicalize_documented\<close>, \<open>router_documented\<close>), and every such property has a witness with a
  concrete instance.

  \<^bold>\<open>What is shown.\<close>
  \<^item> Isolation: a response served from the cache belongs to a storable exchange for the same key and the
    same \<open>Vary\<close> values, in every interleaving; the storing decision is equivalent to a declarative reading
    of RFC 9111.
  \<^item> Freshness: only fresh responses, or stale ones within their windows, are used; lifetimes are bounded;
    invalidation and revalidation have the effect they mean to have, and a successful unsafe request
    invalidates its target.
  \<^item> Coalescing: one leader per key, no lost wake-up, and a waiting request always has a leader; one task per
    stored response revalidates it in the background.
  \<^item> Requests: none is lost and none is answered twice, each ends after at most four sections, and no
    state leaves a pending request without a way to its answer.
  \<^item> Round trip: what the origin sent to one request, in whatever chunks, is what the next one is served.
  \<^item> Types: what the store holds and what is served from it has a storable status, end-to-end fields only
    and a body within the limit.
  \<^item> Bodies: what is stored is the whole body; the idle timeout cuts a stream exactly when it is idle;
    request bodies are never cut short unnoticed.
  \<^item> Messages: which header fields reach the origin and the client, and that the client's address, scheme
    and forwarding fields cannot be chosen by its headers.
  \<^item> Assets: no name leads outside the root, and every answer is the file's content at a moment while the
    request was in progress.
  \<^item> The program: routes, start-up, metrics, and that the program with all its endpoints refines the proxy
    alone; every response is counted once; a section panics only on the overflow of a stale response's
    age or of an idle deadline.
  \<^item> Divergences found: an overflow of the age of a stale response, an overflow of the idle deadline,
    \<open>Vary\<close> on a forwarded field, and which methods \<open>/health\<close> and \<open>/metrics\<close> take.

  \<^bold>\<open>Bounds and termination.\<close> No definition needs fuel: loops are structural recursion, or \<open>function\<close> with a
  measure (\<open>trim\<close>, \<open>from_utf8_lossy\<close>, \<open>to_decimal\<close>). The generation counter of the store is a 64-bit word;
  \<open>generation_left\<close> says that it has not been used up, which a process would need \<open>2 ^ 64\<close> stores for.

  \<^bold>\<open>Not modelled.\<close> The parsing of HTTP, TLS and HTTP dates, the compression and logging middleware, the
  rounding of \<open>hit_ratio\<close> to a floating point number (its two counts are kept), log messages, and the
  end of the process: they are third-party code or output that nothing in the program reads.
  The deadline of \<open>wait_for_leader\<close> is the instant at which the wait began plus the timeout; tokio's
  timer, which may fire late by up to its resolution, is a parameter. The tests are not modelled.
\<close>

end
